theory Spec2Isabelle
  imports Main
begin

section \<open>Strong4VM: the graph extractor of Dimacs2GraphsAPI.cc and the strong4vm front end\<close>

text \<open>
  The development follows \<^verbatim>\<open>src/dimacs2graphs/api/Dimacs2GraphsAPI.cc\<close> and
  \<^verbatim>\<open>src/cli/strong4vm.cc\<close>. C++ \<^verbatim>\<open>int\<close> values (variable numbers, literals, counts)
  are HOL integers; the places where the 32-bit range matters (stream extraction) check it
  explicitly. Reads and writes outside a vector and an integer division by zero are undefined
  behaviour in C++; the model makes them a value of type \<open>crash\<close>.
\<close>

datatype crash = DivisionByZero | OutOfBounds

subsection \<open>The backbone solver as the driver sees it\<close>

text \<open>
  \<^verbatim>\<open>BackboneSolverAPI\<close> lives in \<^verbatim>\<open>../backbone_solver\<close>, outside the sources at hand. The
  driver only calls five of its methods. A value of the record below is one solver instance
  after a successful \<^verbatim>\<open>read_dimacs\<close>; its fields are the answers of the remaining four
  methods. The answers are functions of the loaded file only: the solver is deterministic
  and a query leaves no trace in later queries. Exceptions of the SAT layer are not modelled.
\<close>

record BackboneSolverAPI =
  create_backbone_detector :: "string \<Rightarrow> bool"
  get_max_variable :: nat
  compute_backbone :: "int list"
  compute_backbone_with_assumptions :: "int list \<Rightarrow> int list"

subsection \<open>Integers on output streams\<close>

fun nat_to_string :: "nat \<Rightarrow> string" where
  "nat_to_string n =
     (if n < 10 then [''0123456789'' ! n]
      else nat_to_string (n div 10) @ [''0123456789'' ! (n mod 10)])"

declare nat_to_string.simps [simp del]

definition to_string :: "int \<Rightarrow> string" where
  "to_string i = (if i < 0 then CHR ''-'' # nat_to_string (nat (- i)) else nat_to_string (nat i))"

subsection \<open>Indexed arrays and the auxiliary-variable table\<close>

text \<open>
  \<^verbatim>\<open>vector<int> line(num_variables + 1, 0); for (int lit : line_vector) line[abs(lit)] = lit;\<close>
  (lines 384-388, 545-549 and 593-597). A literal whose variable exceeds \<open>num_variables\<close>
  writes past the end of the vector.
\<close>

fun fill_indexed :: "int list \<Rightarrow> int list \<Rightarrow> crash + int list" where
  "fill_indexed [] line = Inr line"
| "fill_indexed (lit # lits) line =
     (let var = nat \<bar>lit\<bar>
      in if var < length line then fill_indexed lits (line[var := lit]) else Inl OutOfBounds)"

definition to_indexed :: "nat \<Rightarrow> int list \<Rightarrow> crash + int list" where
  "to_indexed num_variables line_vector = fill_indexed line_vector (replicate (num_variables + 1) 0)"

text \<open>\<^verbatim>\<open>is_aux\<close> (lines 330-332 and 518-520); it is only called with \<open>v \<ge> 0\<close>.\<close>

definition is_aux :: "bool list \<Rightarrow> int \<Rightarrow> bool" where
  "is_aux aux_vars v \<longleftrightarrow> v < int (length aux_vars) \<and> aux_vars ! nat v"

subsection \<open>The edge extractor: \<^verbatim>\<open>process_variable\<close>\<close>

type_synonym edge = "int \<times> int"

text \<open>
  The edge buffers \<^verbatim>\<open>requires_list\<close> and \<^verbatim>\<open>excludes_list\<close> are string streams that only
  ever receive whole lines \<^verbatim>\<open>v << " " << i << "\n"\<close>; the model keeps the list of pairs
  \<open>(v, i)\<close> and renders it when the files are written (\<open>edge_lines\<close> below).
\<close>

definition requires_of :: "nat \<Rightarrow> int list \<Rightarrow> int list \<Rightarrow> bool list \<Rightarrow> int \<Rightarrow> edge list" where
  "requires_of num_variables line global_bb aux_vars v =
     map (\<lambda>i. (v, i))
       (filter (\<lambda>i. i \<noteq> v \<and> line ! nat i = i \<and> global_bb ! nat i = 0 \<and> \<not> is_aux aux_vars i)
          [1 .. int num_variables])"

definition excludes_of :: "nat \<Rightarrow> int list \<Rightarrow> int list \<Rightarrow> bool list \<Rightarrow> int \<Rightarrow> edge list" where
  "excludes_of num_variables line global_bb aux_vars v =
     map (\<lambda>i. (v, i))
       (filter (\<lambda>i. line ! nat i = - i \<and> global_bb ! nat i \<noteq> - i \<and> global_bb ! nat v \<noteq> - v
                    \<and> \<not> is_aux aux_vars i)
          [v .. int num_variables])"

definition process_variable ::
  "BackboneSolverAPI \<Rightarrow> nat \<Rightarrow> int list \<Rightarrow> bool list \<Rightarrow> int \<Rightarrow> crash + (edge list \<times> edge list)" where
  "process_variable bone_api num_variables global_bb aux_vars v =
     (case to_indexed num_variables (compute_backbone_with_assumptions bone_api [v]) of
        Inl c \<Rightarrow> Inl c
      | Inr line \<Rightarrow>
          Inr (requires_of num_variables line global_bb aux_vars v,
               excludes_of num_variables line global_bb aux_vars v))"

subsection \<open>The per-index loop of \<^verbatim>\<open>ThreadWorker::run\<close> and of the single-threaded path\<close>

text \<open>
  Both loops walk a range of indices into \<^verbatim>\<open>vars_to_process\<close> and handle the variable found
  there. A buffer is the triple of the requires edges, the excludes edges and the list of
  assumption vectors handed to \<^verbatim>\<open>compute_backbone_with_assumptions\<close> so far (the last
  component is a log kept by the model, not by the program).
\<close>

type_synonym buffers = "edge list \<times> edge list \<times> int list list"

fun run_loop ::
  "(int \<Rightarrow> crash + (edge list \<times> edge list)) \<Rightarrow> int list \<Rightarrow> int list \<Rightarrow> buffers \<Rightarrow> crash + buffers" where
  "run_loop pv vars_to_process [] b = Inr b"
| "run_loop pv vars_to_process (idx # idxs) b =
     (if 0 \<le> idx \<and> idx < int (length vars_to_process) then
        (let v = vars_to_process ! nat idx
         in case pv v of
              Inl c \<Rightarrow> Inl c
            | Inr (rs, es) \<Rightarrow>
                run_loop pv vars_to_process idxs
                  (fst b @ rs, fst (snd b) @ es, snd (snd b) @ [[v]]))
      else Inl OutOfBounds)"

record ThreadWorker =
  thread_id :: nat
  start_idx :: int
  end_idx :: int
  bone_api :: BackboneSolverAPI

definition run :: "nat \<Rightarrow> int list \<Rightarrow> bool list \<Rightarrow> int list \<Rightarrow> ThreadWorker \<Rightarrow> crash + buffers" where
  "run num_variables global_bb aux_vars vars_to_process w =
     run_loop (process_variable (bone_api w) num_variables global_bb aux_vars) vars_to_process
       [start_idx w .. end_idx w] ([], [], [])"

subsection \<open>The parallel driver (lines 570-695)\<close>

text \<open>Lines 618-633: one solver per worker, loaded and given its detector on the driver strand.\<close>

fun init_apis ::
  "(string \<Rightarrow> BackboneSolverAPI option) \<Rightarrow> string \<Rightarrow> string \<Rightarrow> nat \<Rightarrow> nat
     \<Rightarrow> string + BackboneSolverAPI list" where
  "init_apis read_dimacs dimacs_path detector t 0 = Inr []"
| "init_apis read_dimacs dimacs_path detector t (Suc k) =
     (case read_dimacs dimacs_path of
        None \<Rightarrow> Inl (''Failed to load DIMACS for thread '' @ to_string (int t))
      | Some api \<Rightarrow>
          if \<not> create_backbone_detector api detector
          then Inl (''Failed to create detector for thread '' @ to_string (int t))
          else (case init_apis read_dimacs dimacs_path detector (Suc t) k of
                  Inl msg \<Rightarrow> Inl msg
                | Inr apis \<Rightarrow> Inr (api # apis)))"

text \<open>
  Lines 645-658: the loop \<^verbatim>\<open>for (t = 0; t < effective_threads; t++)\<close> that hands out index
  ranges; the fourth argument counts the iterations left.
\<close>

fun make_workers ::
  "int \<Rightarrow> int \<Rightarrow> BackboneSolverAPI list \<Rightarrow> nat \<Rightarrow> nat \<Rightarrow> int \<Rightarrow> ThreadWorker list" where
  "make_workers vars_per_thread remainder apis t 0 current_idx = []"
| "make_workers vars_per_thread remainder apis t (Suc k) current_idx =
     (let start = current_idx;
          count = vars_per_thread + (if int t < remainder then 1 else 0);
          end = start + count - 1
      in \<lparr>thread_id = t, start_idx = start, end_idx = end, bone_api = apis ! t\<rparr>
           # make_workers vars_per_thread remainder apis (Suc t) k (end + 1))"

text \<open>
  Lines 642-643. \<^verbatim>\<open>total_to_process / effective_threads\<close> divides integers that are never
  negative here, where C++ and HOL division agree; a zero divisor is undefined behaviour.
\<close>

definition partition_workers :: "int \<Rightarrow> int \<Rightarrow> BackboneSolverAPI list \<Rightarrow> crash + ThreadWorker list" where
  "partition_workers total_to_process effective_threads apis =
     (if effective_threads = 0 then Inl DivisionByZero
      else Inr (make_workers (total_to_process div effective_threads)
                  (total_to_process mod effective_threads) apis 0 (nat effective_threads) 0))"

text \<open>
  Workers share nothing they write to except the progress counter, so running them one after
  the other gives the buffers the threads produce. Undefined behaviour in any worker takes
  the process down.
\<close>

fun run_workers ::
  "nat \<Rightarrow> int list \<Rightarrow> bool list \<Rightarrow> int list \<Rightarrow> ThreadWorker list \<Rightarrow> crash + buffers list" where
  "run_workers num_variables global_bb aux_vars vars_to_process [] = Inr []"
| "run_workers num_variables global_bb aux_vars vars_to_process (w # ws) =
     (case run num_variables global_bb aux_vars vars_to_process w of
        Inl c \<Rightarrow> Inl c
      | Inr b \<Rightarrow>
          (case run_workers num_variables global_bb aux_vars vars_to_process ws of
             Inl c \<Rightarrow> Inl c
           | Inr bs \<Rightarrow> Inr (b # bs)))"

text \<open>Lines 690-694: the thread-local buffers are appended in worker order.\<close>

fun merge_buffers :: "buffers \<Rightarrow> buffers list \<Rightarrow> buffers" where
  "merge_buffers acc [] = acc"
| "merge_buffers acc (b # bs) =
     merge_buffers (fst acc @ fst b, fst (snd acc) @ fst (snd b), snd (snd acc) @ snd (snd b)) bs"

definition effective_threads_of :: "int \<Rightarrow> int \<Rightarrow> int" where
  "effective_threads_of num_of_threads total_to_process = min num_of_threads total_to_process"

text \<open>
  Lines 570-695. The result is a crash, or the error message of an early \<^verbatim>\<open>return false\<close>,
  or the merged buffers.
\<close>

definition extract_edges ::
  "(string \<Rightarrow> BackboneSolverAPI option) \<Rightarrow> string \<Rightarrow> string \<Rightarrow> BackboneSolverAPI \<Rightarrow> nat
     \<Rightarrow> int list \<Rightarrow> bool list \<Rightarrow> int list \<Rightarrow> int \<Rightarrow> crash + (string + buffers)" where
  "extract_edges read_dimacs dimacs_path detector api num_variables bb aux_vars vars_to_process
       num_of_threads =
     (let total_to_process = int (length vars_to_process);
          effective_threads = effective_threads_of num_of_threads total_to_process
      in if effective_threads = 1 then
           (case run_loop (process_variable api num_variables bb aux_vars) vars_to_process
                   [0 .. total_to_process - 1] ([], [], []) of
              Inl c \<Rightarrow> Inl c
            | Inr b \<Rightarrow> Inr (Inr b))
         else
           (case init_apis read_dimacs dimacs_path detector 0 (nat effective_threads) of
              Inl msg \<Rightarrow> Inr (Inl msg)
            | Inr apis \<Rightarrow>
                (case partition_workers total_to_process effective_threads apis of
                   Inl c \<Rightarrow> Inl c
                 | Inr workers \<Rightarrow>
                     (case run_workers num_variables bb aux_vars vars_to_process workers of
                        Inl c \<Rightarrow> Inl c
                      | Inr bs \<Rightarrow> Inr (Inr (merge_buffers ([], [], []) bs))))))"

subsection \<open>Candidates, global backbone and thread validation (lines 522-567)\<close>

definition build_vars_to_process :: "bool \<Rightarrow> bool list \<Rightarrow> nat \<Rightarrow> int list" where
  "build_vars_to_process filter_auxiliary aux_vars num_variables =
     (if filter_auxiliary then filter (\<lambda>v. \<not> is_aux aux_vars v) [1 .. int num_variables]
      else [1 .. int num_variables])"

definition max_threads_of :: "nat \<Rightarrow> int" where
  "max_threads_of hardware_concurrency =
     (if hardware_concurrency = 0 then 4 else int hardware_concurrency)"

text \<open>
  Lines 522-695 of \<^verbatim>\<open>generate_graphs_impl\<close>, from the candidate list to the merged edge
  buffers. \<open>api\<close> is the driver's own solver \<^verbatim>\<open>bone_api\<close>, already loaded from
  \<open>dimacs_path\<close>. A successful run yields the indexed global backbone \<^verbatim>\<open>bb\<close> and the buffers.
\<close>

definition analyse ::
  "(string \<Rightarrow> BackboneSolverAPI option) \<Rightarrow> nat \<Rightarrow> string \<Rightarrow> string \<Rightarrow> BackboneSolverAPI
     \<Rightarrow> bool \<Rightarrow> bool list \<Rightarrow> int \<Rightarrow> crash + (string + (int list \<times> buffers))" where
  "analyse read_dimacs hardware_concurrency dimacs_path detector api filter_auxiliary aux_vars
       num_of_threads =
     (let num_variables = get_max_variable api;
          vars_to_process = build_vars_to_process filter_auxiliary aux_vars num_variables;
          bb_vector = compute_backbone api
      in case to_indexed num_variables bb_vector of
           Inl c \<Rightarrow> Inl c
         | Inr bb \<Rightarrow>
             (let max_threads = max_threads_of hardware_concurrency
              in if num_of_threads < 1 then Inr (Inl ''num_of_threads must be at least 1'')
                 else if num_of_threads > max_threads then
                   Inr (Inl (''Requested '' @ to_string num_of_threads @ '' threads but only ''
                             @ to_string max_threads @ '' cores available. Reduce thread count.''))
                 else
                   (case extract_edges read_dimacs dimacs_path detector api num_variables bb
                           aux_vars vars_to_process num_of_threads of
                      Inl c \<Rightarrow> Inl c
                    | Inr (Inl msg) \<Rightarrow> Inr (Inl msg)
                    | Inr (Inr b) \<Rightarrow> Inr (Inr (bb, b)))))"

subsection \<open>Stream extraction (\<^verbatim>\<open>operator>>\<close>) as the driver uses it\<close>

text \<open>
  The driver reads DIMACS lines through \<^verbatim>\<open>std::stringstream\<close>. The definitions below model
  the three extractions it performs, in the classic locale: skipping white space, reading a
  decimal \<^verbatim>\<open>int\<close> (which fails when there is no digit or the value leaves the 32-bit
  range) and reading white-space separated words.
\<close>

definition isspace :: "char \<Rightarrow> bool" where
  "isspace c \<longleftrightarrow> c \<in> set [CHR '' '', CHR 0x09, CHR 0x0A, CHR 0x0B, CHR 0x0C, CHR 0x0D]"

definition isdigit :: "char \<Rightarrow> bool" where
  "isdigit c \<longleftrightarrow> c \<in> set ''0123456789''"

definition digit_value :: "char \<Rightarrow> int" where
  "digit_value c = int (of_char c) - 48"

definition scan_int :: "string \<Rightarrow> (int \<times> string) option" where
  "scan_int s =
     (let t = dropWhile isspace s;
          negative = (t \<noteq> [] \<and> hd t = CHR ''-'');
          u = (if t \<noteq> [] \<and> (hd t = CHR ''-'' \<or> hd t = CHR ''+'') then tl t else t);
          digits = takeWhile isdigit u;
          magnitude = foldl (\<lambda>a d. 10 * a + digit_value d) 0 digits
      in if digits = [] then None
         else Some (if negative then - magnitude else magnitude, dropWhile isdigit u))"

definition extract_int :: "string \<Rightarrow> (int \<times> string) option" where
  "extract_int s =
     (case scan_int s of
        None \<Rightarrow> None
      | Some (v, rest) \<Rightarrow>
          if - 2147483648 \<le> v \<and> v \<le> 2147483647 then Some (v, rest) else None)"

fun split_words :: "string \<Rightarrow> string \<Rightarrow> string list" where
  "split_words word [] = (if word = [] then [] else [word])"
| "split_words word (c # cs) =
     (if isspace c then (if word = [] then split_words [] cs else word # split_words [] cs)
      else split_words (word @ [c]) cs)"

definition extract_words :: "string \<Rightarrow> string list" where
  "extract_words s = split_words [] s"

text \<open>
  \<^verbatim>\<open>ss >> c >> var_number\<close> followed by \<^verbatim>\<open>while (ss >> word)\<close> on a line that starts with
  \<^verbatim>\<open>'c'\<close> (lines 226-239 and 708-729): the character read is that \<^verbatim>\<open>'c'\<close>.
\<close>

definition parse_comment :: "string \<Rightarrow> (int \<times> string list) option" where
  "parse_comment line_str =
     (case extract_int (tl line_str) of
        None \<Rightarrow> None
      | Some (var_number, rest) \<Rightarrow> Some (var_number, extract_words rest))"

text \<open>\<^verbatim>\<open>full_name\<close>: the words joined by single blanks.\<close>

fun join_words :: "string list \<Rightarrow> string" where
  "join_words [] = []"
| "join_words [w] = w"
| "join_words (w # ws) = w @ '' '' @ join_words ws"

subsection \<open>\<^verbatim>\<open>read_clause_count\<close> (lines 177-199)\<close>

definition clamp_int :: "int \<Rightarrow> int" where
  "clamp_int v = max (- 2147483648) (min 2147483647 v)"

text \<open>
  \<^verbatim>\<open>ss >> p >> cnf >> vars >> clauses\<close>. Once an extraction has failed the later ones leave
  their target alone; a failed conversion of \<^verbatim>\<open>clauses\<close> itself stores 0, an overflowing one
  the nearest \<^verbatim>\<open>int\<close>.
\<close>

definition parse_problem_line :: "string \<Rightarrow> int \<Rightarrow> int" where
  "parse_problem_line line_str clauses =
     (let t = dropWhile isspace (tl line_str);
          cnf = takeWhile (\<lambda>c. \<not> isspace c) t;
          rest = dropWhile (\<lambda>c. \<not> isspace c) t
      in if cnf = [] then clauses
         else (case extract_int rest of
                 None \<Rightarrow> clauses
               | Some (vars, rest') \<Rightarrow>
                   if dropWhile isspace rest' = [] then clauses
                   else (case scan_int rest' of
                           None \<Rightarrow> 0
                         | Some (c, rest'') \<Rightarrow> clamp_int c)))"

definition read_clause_count ::
  "(string \<Rightarrow> string list option) \<Rightarrow> string \<Rightarrow> int \<Rightarrow> string + int" where
  "read_clause_count ifstream dimacs_path clauses =
     (case ifstream dimacs_path of
        None \<Rightarrow> Inl (''Could not open file: '' @ dimacs_path)
      | Some file_lines \<Rightarrow>
          (case find (\<lambda>line_str. line_str \<noteq> [] \<and> hd line_str = CHR ''p'') file_lines of
             None \<Rightarrow> Inl ''No problem line found in DIMACS file''
           | Some line_str \<Rightarrow> Inr (parse_problem_line line_str clauses)))"

subsection \<open>\<^verbatim>\<open>read_feature_names\<close> (lines 213-263)\<close>

text \<open>
  Only the auxiliary table matters afterwards: \<^verbatim>\<open>feature_map\<close> is written but never read.
  A negative variable number with an \<^verbatim>\<open>aux_\<close> name indexes before the start of the vector.
\<close>

definition is_aux_name :: "string list \<Rightarrow> bool" where
  "is_aux_name ws \<longleftrightarrow> ws \<noteq> [] \<and> take 4 (join_words ws) = ''aux_''"

definition mark_aux :: "bool list \<Rightarrow> int \<Rightarrow> bool list" where
  "mark_aux aux_vars var_number =
     (if var_number \<ge> int (length aux_vars)
      then aux_vars @ replicate (nat var_number + 1 - length aux_vars) False
      else aux_vars)[nat var_number := True]"

fun scan_feature_names :: "string list \<Rightarrow> bool list \<Rightarrow> crash + bool list" where
  "scan_feature_names [] aux_vars = Inr aux_vars"
| "scan_feature_names (line_str # rest) aux_vars =
     (if line_str = [] then scan_feature_names rest aux_vars
      else if hd line_str = CHR ''c'' then
        (case parse_comment line_str of
           None \<Rightarrow> scan_feature_names rest aux_vars
         | Some (var_number, ws) \<Rightarrow>
             if is_aux_name ws then
               (if var_number < 0 then Inl OutOfBounds
                else scan_feature_names rest (mark_aux aux_vars var_number))
             else scan_feature_names rest aux_vars)
      else scan_feature_names rest aux_vars)"

definition read_feature_names ::
  "(string \<Rightarrow> string list option) \<Rightarrow> string \<Rightarrow> bool list \<Rightarrow> crash + (string + bool list)" where
  "read_feature_names ifstream dimacs_path aux_vars =
     (case ifstream dimacs_path of
        None \<Rightarrow> Inr (Inl (''Could not open file: '' @ dimacs_path))
      | Some file_lines \<Rightarrow>
          (case scan_feature_names file_lines aux_vars of
             Inl c \<Rightarrow> Inl c
           | Inr aux_vars' \<Rightarrow> Inr (Inr aux_vars')))"

text \<open>Lines 497-515: the table is all false unless filtering is switched on.\<close>

definition load_aux_vars ::
  "(string \<Rightarrow> string list option) \<Rightarrow> string \<Rightarrow> bool \<Rightarrow> nat \<Rightarrow> crash + (string + bool list)" where
  "load_aux_vars ifstream dimacs_path filter_auxiliary num_variables =
     (if filter_auxiliary
      then read_feature_names ifstream dimacs_path (replicate (num_variables + 1) False)
      else Inr (Inr (replicate (num_variables + 1) False)))"

subsection \<open>The name loop that fills the vertex, core and dead streams (lines 699-753)\<close>

definition quoted :: "string \<Rightarrow> string" where
  "quoted word = [CHR '' '', CHR 0x22] @ word @ [CHR 0x22]"

definition endl :: string where
  "endl = [CHR 0x0A]"

text \<open>What one comment line adds to \<^verbatim>\<open>feat_stream\<close>.\<close>

definition feat_chunk :: "int \<Rightarrow> string list \<Rightarrow> string" where
  "feat_chunk var_number ws =
     to_string var_number @ concat (map quoted ws) @ (if ws \<noteq> [] then endl else [])"

text \<open>
  What one comment line of a core (dead) variable adds to \<^verbatim>\<open>core_stream\<close>
  (\<^verbatim>\<open>dead_stream\<close>): the number is written again in front of every word.
\<close>

definition list_chunk :: "int \<Rightarrow> string list \<Rightarrow> string" where
  "list_chunk var_number ws =
     concat (map (\<lambda>word. to_string var_number @ quoted word) ws) @ (if ws \<noteq> [] then endl else [])"

record feature_entry =
  entry_var :: int
  feat_text :: string
  core_text :: string
  dead_text :: string

definition emit_line :: "int list \<Rightarrow> bool list \<Rightarrow> string \<Rightarrow> crash + feature_entry option" where
  "emit_line bb aux_vars line_str =
     (if line_str = [] then Inr None
      else if hd line_str \<noteq> CHR ''c'' then Inr None
      else (case parse_comment line_str of
              None \<Rightarrow> Inr None
            | Some (var_number, ws) \<Rightarrow>
                if var_number < 0 then Inl OutOfBounds
                else if is_aux aux_vars var_number then Inr None
                else if ws = [] then
                  Inr (Some \<lparr>entry_var = var_number, feat_text = feat_chunk var_number ws,
                             core_text = [], dead_text = []\<rparr>)
                else if \<not> var_number < int (length bb) then Inl OutOfBounds
                else
                  Inr (Some \<lparr>entry_var = var_number, feat_text = feat_chunk var_number ws,
                             core_text = (if bb ! nat var_number > 0
                                          then list_chunk var_number ws else []),
                             dead_text = (if bb ! nat var_number < 0
                                          then list_chunk var_number ws else [])\<rparr>)))"

fun emit_lines :: "int list \<Rightarrow> bool list \<Rightarrow> string list \<Rightarrow> crash + feature_entry list" where
  "emit_lines bb aux_vars [] = Inr []"
| "emit_lines bb aux_vars (line_str # rest) =
     (case emit_line bb aux_vars line_str of
        Inl c \<Rightarrow> Inl c
      | Inr entry \<Rightarrow>
          (case emit_lines bb aux_vars rest of
             Inl c \<Rightarrow> Inl c
           | Inr entries \<Rightarrow>
               Inr ((case entry of None \<Rightarrow> [] | Some e \<Rightarrow> [e]) @ entries)))"

definition feat_stream :: "feature_entry list \<Rightarrow> string" where
  "feat_stream entries = concat (map feat_text entries)"

definition core_stream :: "feature_entry list \<Rightarrow> string" where
  "core_stream entries = concat (map core_text entries)"

definition dead_stream :: "feature_entry list \<Rightarrow> string" where
  "dead_stream entries = concat (map dead_text entries)"

subsection \<open>Paths (lines 122-164 and 460-469)\<close>

definition ends_with :: "string \<Rightarrow> string \<Rightarrow> bool" where
  "ends_with s suffix \<longleftrightarrow>
     length suffix \<le> length s \<and> drop (length s - length suffix) s = suffix"

definition is_separator :: "char \<Rightarrow> bool" where
  "is_separator c \<longleftrightarrow> c = CHR ''/'' \<or> c = CHR 0x5C"

definition normalize_path :: "string \<Rightarrow> string" where
  "normalize_path path =
     (if path = [] then path
      else if is_separator (last path) then butlast path
      else path)"

definition get_basename :: "string \<Rightarrow> string" where
  "get_basename filepath =
     (let filename = rev (takeWhile (\<lambda>c. \<not> is_separator c) (rev filepath))
      in if ends_with filename ''.dimacs'' then take (length filename - 7) filename
         else filename)"

definition get_directory :: "string \<Rightarrow> string" where
  "get_directory filepath =
     (if list_ex is_separator filepath
      then rev (tl (dropWhile (\<lambda>c. \<not> is_separator c) (rev filepath)))
      else ''.'')"

definition dimacs_path_of :: "string \<Rightarrow> string" where
  "dimacs_path_of dimacs_file =
     (if length dimacs_file < 7 \<or> drop (length dimacs_file - 7) dimacs_file \<noteq> ''.dimacs''
      then dimacs_file @ ''.dimacs''
      else dimacs_file)"

subsection \<open>The world outside the program\<close>

text \<open>
  \<open>env_read_dimacs\<close> is \<^verbatim>\<open>BackboneSolverAPI::read_dimacs\<close> on a fresh solver: \<open>None\<close> when the
  file cannot be loaded (missing, malformed or unsatisfiable), otherwise the loaded solver.
  \<open>env_ifstream\<close> gives the lines \<^verbatim>\<open>getline\<close> delivers from a file, \<open>None\<close> when it cannot be
  opened. \<open>env_create_directories\<close> returns the text of the exception, if one is thrown.
\<close>

record environment =
  env_read_dimacs :: "string \<Rightarrow> BackboneSolverAPI option"
  env_ifstream :: "string \<Rightarrow> string list option"
  env_hardware_concurrency :: nat
  env_exists :: "string \<Rightarrow> bool"
  env_create_directories :: "string \<Rightarrow> string option"
  env_ofstream :: "string \<Rightarrow> bool"

subsection \<open>The API object and what a call leaves behind\<close>

text \<open>The fields of \<^verbatim>\<open>Dimacs2GraphsAPI::Impl\<close> other than the solver (lines 104-111).\<close>

record Impl =
  num_variables :: int
  num_clauses :: int
  global_backbone :: "int list"
  error_message :: string
  filter_auxiliary :: bool

text \<open>
  What a call leaves behind: the value returned, the object's state, the files written (in
  order), and what the analysis computed: the queries issued, the edges and the entries of the
  name loop (empty when the call returned before computing them).
\<close>

record outcome =
  returned :: bool
  impl :: Impl
  written :: "(string \<times> string) list"
  queries :: "int list list"
  requires_edges :: "edge list"
  excludes_edges :: "edge list"
  entries :: "feature_entry list"

definition failure :: "Impl \<Rightarrow> string \<Rightarrow> outcome" where
  "failure st msg =
     \<lparr>returned = False, impl = st\<lparr>error_message := msg\<rparr>, written = [], queries = [],
      requires_edges = [], excludes_edges = [], entries = []\<rparr>"

subsection \<open>Writing the four files (lines 755-815)\<close>

definition edge_lines :: "edge list \<Rightarrow> string" where
  "edge_lines edges = concat (map (\<lambda>e. to_string (fst e) @ '' '' @ to_string (snd e) @ endl) edges)"

fun write_files ::
  "(string \<Rightarrow> bool) \<Rightarrow> (string \<times> string) list \<Rightarrow> (string \<times> string) list \<times> string option" where
  "write_files opens [] = ([], None)"
| "write_files opens (f # fs) =
     (if \<not> opens (fst f) then ([], Some (''Could not create output file: '' @ fst f))
      else (f # fst (write_files opens fs), snd (write_files opens fs)))"

definition output_files ::
  "string \<Rightarrow> int \<Rightarrow> edge list \<Rightarrow> edge list \<Rightarrow> feature_entry list \<Rightarrow> (string \<times> string) list" where
  "output_files output_base num_vars requires excludes ents =
     [(output_base @ ''__core.txt'', core_stream ents),
      (output_base @ ''__dead.txt'', dead_stream ents),
      (output_base @ ''__requires.net'',
         ''*Vertices '' @ to_string num_vars @ endl @ feat_stream ents @ ''*Arcs'' @ endl
           @ edge_lines requires @ endl),
      (output_base @ ''__excludes.net'',
         ''*Vertices '' @ to_string num_vars @ endl @ feat_stream ents @ ''*Edges'' @ endl
           @ edge_lines excludes @ endl)]"

definition write_outputs ::
  "environment \<Rightarrow> Impl \<Rightarrow> string \<Rightarrow> string \<Rightarrow> buffers \<Rightarrow> feature_entry list \<Rightarrow> outcome" where
  "write_outputs env st output_dir output_base b ents =
     (let computed = \<lparr>returned = False, impl = st, written = [], queries = snd (snd b),
                      requires_edges = fst b, excludes_edges = fst (snd b), entries = ents\<rparr>;
          thrown = (if output_dir \<noteq> [] \<and> \<not> env_exists env output_dir
                    then env_create_directories env output_dir else None)
      in case thrown of
           Some what \<Rightarrow>
             computed\<lparr>impl := st\<lparr>error_message :=
               ''Could not create output directory: '' @ output_dir @ '' - '' @ what\<rparr>\<rparr>
         | None \<Rightarrow>
             (let w = write_files (env_ofstream env)
                        (output_files output_base (num_variables st) (fst b) (fst (snd b)) ents)
              in case snd w of
                   Some msg \<Rightarrow> computed\<lparr>impl := st\<lparr>error_message := msg\<rparr>, written := fst w\<rparr>
                 | None \<Rightarrow> computed\<lparr>returned := True, written := fst w\<rparr>))"

subsection \<open>\<^verbatim>\<open>generate_graphs_impl\<close> (lines 448-815)\<close>

text \<open>
  Line 703 opens the file once more without checking the stream: a stream that failed to open
  delivers no line.
\<close>

definition all_lines :: "(string \<Rightarrow> string list option) \<Rightarrow> string \<Rightarrow> string list" where
  "all_lines ifstream dimacs_path =
     (case ifstream dimacs_path of None \<Rightarrow> [] | Some file_lines \<Rightarrow> file_lines)"

definition load_error :: "string \<Rightarrow> string" where
  "load_error dimacs_path =
     ''Please check that '' @ dimacs_path @ '' conforms to the DIMACS CNF format and is accessible.''"

definition generate_graphs_impl ::
  "environment \<Rightarrow> Impl \<Rightarrow> string \<Rightarrow> string \<Rightarrow> string \<Rightarrow> int \<Rightarrow> crash + outcome" where
  "generate_graphs_impl env st0 dimacs_file output_folder detector num_of_threads =
     (let st1 = st0\<lparr>num_variables := 0, num_clauses := 0, global_backbone := [],
                    error_message := []\<rparr>;
          dimacs_path = dimacs_path_of dimacs_file;
          output_dir = (if output_folder = [] then get_directory dimacs_path
                        else normalize_path output_folder);
          basename = get_basename dimacs_file;
          output_base = output_dir @ ''/'' @ basename
      in case env_read_dimacs env dimacs_path of
           None \<Rightarrow> Inr (failure st1 (load_error dimacs_path))
         | Some api \<Rightarrow>
             if \<not> create_backbone_detector api detector
             then Inr (failure st1 (''Failed to create backbone detector: '' @ detector))
             else
               (let st2 = st1\<lparr>num_variables := int (get_max_variable api)\<rparr>
                in case read_clause_count (env_ifstream env) dimacs_path (num_clauses st2) of
                     Inl msg \<Rightarrow> Inr (failure st2 msg)
                   | Inr clauses \<Rightarrow>
                       (let st3 = st2\<lparr>num_clauses := clauses\<rparr>
                        in case load_aux_vars (env_ifstream env) dimacs_path
                                  (filter_auxiliary st3) (get_max_variable api) of
                             Inl c \<Rightarrow> Inl c
                           | Inr (Inl msg) \<Rightarrow> Inr (failure st3 msg)
                           | Inr (Inr aux_vars) \<Rightarrow>
                               (let st4 = st3\<lparr>global_backbone := compute_backbone api\<rparr>
                                in case analyse (env_read_dimacs env)
                                          (env_hardware_concurrency env) dimacs_path detector api
                                          (filter_auxiliary st4) aux_vars num_of_threads of
                                     Inl c \<Rightarrow> Inl c
                                   | Inr (Inl msg) \<Rightarrow> Inr (failure st4 msg)
                                   | Inr (Inr (bb, b)) \<Rightarrow>
                                       (case emit_lines bb aux_vars
                                               (all_lines (env_ifstream env) dimacs_path) of
                                          Inl c \<Rightarrow> Inl c
                                        | Inr ents \<Rightarrow>
                                            Inr (write_outputs env st4 output_dir output_base
                                                   b ents))))))"

text \<open>The getters of lines 853-879 read the fields of \<open>Impl\<close>.\<close>

subsection \<open>The command-line front end \<^verbatim>\<open>strong4vm.cc\<close>\<close>

datatype FileType = UVL | DIMACS | UNKNOWN

text \<open>
  \<^verbatim>\<open>std::filesystem::path::extension\<close> and \<^verbatim>\<open>stem\<close> on a POSIX path: the extension starts at
  the last period of the file name, unless that period is its first character or the name is
  \<^verbatim>\<open>.\<close> or \<^verbatim>\<open>..\<close>.
\<close>

definition path_filename :: "string \<Rightarrow> string" where
  "path_filename p = rev (takeWhile (\<lambda>c. c \<noteq> CHR ''/'') (rev p))"

definition path_extension :: "string \<Rightarrow> string" where
  "path_extension p =
     (let f = path_filename p;
          e = rev (takeWhile (\<lambda>c. c \<noteq> CHR ''.'') (rev f))
      in if f = ''.'' \<or> f = ''..'' \<or> \<not> list_ex (\<lambda>c. c = CHR ''.'') f \<or> length e + 1 = length f
         then []
         else CHR ''.'' # e)"

definition path_stem :: "string \<Rightarrow> string" where
  "path_stem p =
     (let f = path_filename p in take (length f - length (path_extension p)) f)"

definition tolower :: "char \<Rightarrow> char" where
  "tolower c =
     (let n = (of_char c :: nat) in if 65 \<le> n \<and> n \<le> 90 then char_of (n + 32) else c)"

definition detect_file_type :: "string \<Rightarrow> FileType" where
  "detect_file_type filename =
     (let ext = map tolower (path_extension filename)
      in if ext = ''.uvl'' then UVL
         else if ext = ''.dimacs'' \<or> ext = ''.cnf'' then DIMACS
         else UNKNOWN)"

text \<open>
  \<^verbatim>\<open>std::atoi\<close> as the C library of the build platform defines it,
  \<^verbatim>\<open>(int) strtol(s, NULL, 10)\<close>: 0 when no number can be read, a 64-bit \<^verbatim>\<open>long\<close> that
  saturates at its bounds, and a conversion to the 32-bit \<^verbatim>\<open>int\<close> that keeps the low 32
  bits, so that \<^verbatim>\<open>atoi("4294967297")\<close> is 1 and \<^verbatim>\<open>atoi("2147483648")\<close> is negative.
\<close>

definition clamp_long :: "int \<Rightarrow> int" where
  "clamp_long v = max (- 9223372036854775808) (min 9223372036854775807 v)"

definition to_int32 :: "int \<Rightarrow> int" where
  "to_int32 v = (v + 2147483648) mod 4294967296 - 2147483648"

definition atoi :: "string \<Rightarrow> int" where
  "atoi s = (case scan_int s of None \<Rightarrow> 0 | Some (v, rest) \<Rightarrow> to_int32 (clamp_long v))"

record options =
  input_file :: string
  output_dir :: string
  num_threads :: int
  keep_dimacs :: bool
  use_tseitin :: bool

text \<open>
  The argument loop of \<^verbatim>\<open>main\<close> (lines 119-144) over \<^verbatim>\<open>argv[1], argv[2], ...\<close>; \<open>Inl\<close> is
  an exit code returned from inside the loop. \<open>is_option arg short long\<close> is the test
  \<^verbatim>\<open>arg == short || arg == long\<close>.
\<close>

definition is_option :: "string \<Rightarrow> string \<Rightarrow> string \<Rightarrow> bool" where
  "is_option arg short long \<longleftrightarrow> arg = short \<or> arg = long"

fun parse_args :: "string list \<Rightarrow> options \<Rightarrow> int + options" where
  "parse_args [] opts = Inr opts"
| "parse_args (arg # rest) opts =
     (if is_option arg ''-h'' ''--help'' then Inl 0
      else if is_option arg ''-k'' ''--keep-dimacs'' then parse_args rest (opts\<lparr>keep_dimacs := True\<rparr>)
      else if is_option arg ''-e'' ''--enable-tseitin''
        then parse_args rest (opts\<lparr>use_tseitin := True\<rparr>)
      else if is_option arg ''-t'' ''--threads'' \<and> rest \<noteq> [] then
        (case rest of
           [] \<Rightarrow> Inl 1
         | value # rest' \<Rightarrow>
             if atoi value < 1 then Inl 1
             else parse_args rest' (opts\<lparr>num_threads := atoi value\<rparr>))
      else if is_option arg ''-o'' ''--output'' \<and> rest \<noteq> [] then
        (case rest of
           [] \<Rightarrow> Inl 1
         | value # rest' \<Rightarrow> parse_args rest' (opts\<lparr>output_dir := value\<rparr>))
      else if arg = [] \<or> hd arg \<noteq> CHR ''-'' then parse_args rest (opts\<lparr>input_file := arg\<rparr>)
      else Inl 1)"

text \<open>
  The front end sees the same world as the library, plus \<^verbatim>\<open>path::parent_path\<close> and the UVL
  converter (its \<^verbatim>\<open>result.success\<close>), neither of which is part of the sources at hand.
\<close>

record cli_environment =
  cli_env :: environment
  cli_parent_path :: "string \<Rightarrow> string"
  cli_convert :: "bool \<Rightarrow> string \<Rightarrow> string \<Rightarrow> bool"

definition new_Impl :: Impl where
  "new_Impl = \<lparr>num_variables = 0, num_clauses = 0, global_backbone = [], error_message = [],
               filter_auxiliary = False\<rparr>"

definition set_filter_auxiliary :: "bool \<Rightarrow> Impl \<Rightarrow> Impl" where
  "set_filter_auxiliary flag st = st\<lparr>filter_auxiliary := flag\<rparr>"

text \<open>
  Lines 146-230, after the arguments have been parsed: the checks on the input file and the
  output directory and, for UVL input, the conversion. \<open>Inl\<close> is the exit code of an early
  \<^verbatim>\<open>return\<close>, \<open>Inr\<close> the DIMACS file and the output directory handed to the graph
  generator.
\<close>

definition prepare :: "cli_environment \<Rightarrow> options \<Rightarrow> int + (string \<times> string)" where
  "prepare ce opts =
     (if input_file opts = [] then Inl 1
      else if \<not> env_exists (cli_env ce) (input_file opts) then Inl 1
      else if detect_file_type (input_file opts) = UNKNOWN then Inl 1
      else
        (let out_dir = (if output_dir opts = []
                        then (if cli_parent_path ce (input_file opts) \<noteq> []
                              then cli_parent_path ce (input_file opts) else ''.'')
                        else output_dir opts)
         in if \<not> env_exists (cli_env ce) out_dir
               \<and> env_create_directories (cli_env ce) out_dir \<noteq> None
            then Inl 1
            else
              (let basename = path_stem (input_file opts);
                   is_uvl = (detect_file_type (input_file opts) = UVL);
                   dimacs_file = (if is_uvl then out_dir @ ''/'' @ basename @ ''.dimacs''
                                  else input_file opts)
               in if is_uvl \<and> \<not> cli_convert ce (use_tseitin opts) (input_file opts) dimacs_file
                  then Inl 1
                  else Inr (dimacs_file, out_dir))))"

text \<open>Lines 241-246: a fresh API object, with filtering switched on in Tseitin mode only.\<close>

definition graph_api_of :: "options \<Rightarrow> Impl" where
  "graph_api_of opts =
     (if use_tseitin opts then set_filter_auxiliary True new_Impl else new_Impl)"

text \<open>Lines 253-285: the call of \<^verbatim>\<open>generate_graphs\<close> and the exit code derived from it.\<close>

definition run_pipeline :: "cli_environment \<Rightarrow> options \<Rightarrow> crash + int" where
  "run_pipeline ce opts =
     (case prepare ce opts of
        Inl code \<Rightarrow> Inr code
      | Inr target \<Rightarrow>
          (case generate_graphs_impl (cli_env ce) (graph_api_of opts) (fst target) (snd target)
                  ''one'' (num_threads opts) of
             Inl c \<Rightarrow> Inl c
           | Inr out \<Rightarrow> if \<not> returned out then Inr 1 else Inr 0))"

definition default_options :: options where
  "default_options =
     \<lparr>input_file = [], output_dir = [], num_threads = 1, keep_dimacs = False,
      use_tseitin = False\<rparr>"

text \<open>\<^verbatim>\<open>main\<close>; \<open>args\<close> is \<^verbatim>\<open>argv\<close> without the program name.\<close>

definition main :: "cli_environment \<Rightarrow> string list \<Rightarrow> crash + int" where
  "main ce args =
     (if args = [] then Inr 1
      else (case parse_args args default_options of
              Inl code \<Rightarrow> Inr code
            | Inr opts \<Rightarrow> run_pipeline ce opts))"

subsection \<open>Notions used in the statements and proofs\<close>

text \<open>The options the argument loop knows.\<close>

definition known_option :: "string \<Rightarrow> bool" where
  "known_option arg \<longleftrightarrow>
     is_option arg ''-h'' ''--help'' \<or> is_option arg ''-k'' ''--keep-dimacs'' \<or>
     is_option arg ''-e'' ''--enable-tseitin'' \<or> is_option arg ''-t'' ''--threads'' \<or>
     is_option arg ''-o'' ''--output''"

definition extras :: "int \<Rightarrow> nat \<Rightarrow> nat \<Rightarrow> int" where
  "extras rem t j = max 0 (min rem (int t + int j) - int t)"

definition append_buffers :: "buffers \<Rightarrow> buffers \<Rightarrow> buffers" where
  "append_buffers a b = (fst a @ fst b, fst (snd a) @ fst (snd b), snd (snd a) @ snd (snd b))"

definition requires_part :: "(int \<Rightarrow> crash + (edge list \<times> edge list)) \<Rightarrow> int \<Rightarrow> edge list" where
  "requires_part pv v = (case pv v of Inr p \<Rightarrow> fst p | Inl c \<Rightarrow> [])"

definition excludes_part :: "(int \<Rightarrow> crash + (edge list \<times> edge list)) \<Rightarrow> int \<Rightarrow> edge list" where
  "excludes_part pv v = (case pv v of Inr p \<Rightarrow> snd p | Inl c \<Rightarrow> [])"

text \<open>A variable is named auxiliary when some name comment gives it a name starting with \<^verbatim>\<open>aux_\<close>.\<close>

definition named_aux :: "string list \<Rightarrow> int \<Rightarrow> bool" where
  "named_aux file_lines v \<longleftrightarrow>
     list_ex (\<lambda>line_str. line_str \<noteq> [] \<and> hd line_str = CHR ''c'' \<and>
                (case parse_comment line_str of
                   None \<Rightarrow> False
                 | Some (var_number, ws) \<Rightarrow> var_number = v \<and> is_aux_name ws))
       file_lines"

text \<open>
  The lines of a text file, as \<^verbatim>\<open>getline\<close> delivers them: a last line without a line feed
  counts when it is not empty.
\<close>

fun split_lines :: "string \<Rightarrow> string \<Rightarrow> string list" where
  "split_lines cur [] = (if cur = [] then [] else [cur])"
| "split_lines cur (c # cs) =
     (if c = CHR 0x0A then cur # split_lines [] cs else split_lines (cur @ [c]) cs)"

definition lines_of :: "string \<Rightarrow> string list" where
  "lines_of text = split_lines [] text"

text \<open>
  The variable indices a reader takes from one line of an output file: the number the line
  starts with and, on an edge line, the number that follows it. The lines \<^verbatim>\<open>*Vertices N\<close>,
  \<^verbatim>\<open>*Arcs\<close> and \<^verbatim>\<open>*Edges\<close> start with no number. A file mentions a variable when one of its
  lines carries the variable's index.
\<close>

definition line_numbers :: "string \<Rightarrow> int list" where
  "line_numbers l =
     (case scan_int l of
        None \<Rightarrow> []
      | Some (a, rest) \<Rightarrow> a # (case scan_int rest of None \<Rightarrow> [] | Some (b, rest') \<Rightarrow> [b]))"

definition file_mentions :: "string \<Rightarrow> int \<Rightarrow> bool" where
  "file_mentions text v \<longleftrightarrow> list_ex (\<lambda>l. v \<in> set (line_numbers l)) (lines_of text)"

text \<open>
  The name comments of the input, in order: the lines that start with \<^verbatim>\<open>c\<close> and go on with
  a number, each as that number and the words after it. Those listed in the outputs are the
  comments of the variables that are not filtered out.
\<close>

definition comment_of :: "string \<Rightarrow> (int \<times> string list) option" where
  "comment_of line_str =
     (if line_str \<noteq> [] \<and> hd line_str = CHR ''c'' then parse_comment line_str else None)"

fun comments :: "string list \<Rightarrow> (int \<times> string list) list" where
  "comments [] = []"
| "comments (line_str # rest) =
     (case comment_of line_str of None \<Rightarrow> comments rest | Some c \<Rightarrow> c # comments rest)"

definition listed_comments :: "bool \<Rightarrow> string list \<Rightarrow> (int \<times> string list) list" where
  "listed_comments flt file_lines =
     filter (\<lambda>c. \<not> (flt \<and> named_aux file_lines (fst c))) (comments file_lines)"

text \<open>
  The lines of the output files: a vertex line \<^verbatim>\<open>index "w1" "w2" ...\<close>, the line the core
  and dead files get for the same comment, and an edge line.
\<close>

definition vertex_line :: "int \<times> string list \<Rightarrow> string" where
  "vertex_line c = to_string (fst c) @ concat (map quoted (snd c))"

definition list_line :: "int \<times> string list \<Rightarrow> string" where
  "list_line c = concat (map (\<lambda>word. to_string (fst c) @ quoted word) (snd c))"

definition edge_line :: "edge \<Rightarrow> string" where
  "edge_line e = to_string (fst e) @ '' '' @ to_string (snd e)"

text \<open>What the name loop keeps of a comment whose variable is within the backbone array.\<close>

definition entry_of :: "int list \<Rightarrow> int \<times> string list \<Rightarrow> feature_entry" where
  "entry_of bb c =
     \<lparr>entry_var = fst c, feat_text = feat_chunk (fst c) (snd c),
      core_text = (if snd c \<noteq> [] \<and> 0 < bb ! nat (fst c) then list_chunk (fst c) (snd c) else []),
      dead_text = (if snd c \<noteq> [] \<and> bb ! nat (fst c) < 0 then list_chunk (fst c) (snd c) else [])\<rparr>"

subsection \<open>Sample formulas\<close>

text \<open>
  Small inputs on which the statements below are exercised. Each solver value gives the
  answers of a correct backbone engine on the formula named: the mediator formula
  \<open>(a \<or> \<not>aux_1) \<and> (aux_1 \<or> \<not>b)\<close> and the mutual exclusion \<open>(\<not>a \<or> \<not>b)\<close>.
\<close>

definition sample_detector :: "string \<Rightarrow> bool" where
  "sample_detector d \<longleftrightarrow> d = ''one'' \<or> d = ''without''"

definition mediator_lines :: "string list" where
  "mediator_lines = [''c 1 a'', ''c 2 b'', ''c 3 aux_1'', ''p cnf 3 2'', ''1 -3 0'', ''3 -2 0'']"

definition mediator_api :: BackboneSolverAPI where
  "mediator_api =
     \<lparr>create_backbone_detector = sample_detector, get_max_variable = 3, compute_backbone = [],
      compute_backbone_with_assumptions =
        (\<lambda>a. if a = [1] then [1] else if a = [2] then [1, 2, 3] else if a = [3] then [1, 3] else [])\<rparr>"

definition sample_env :: "string \<Rightarrow> string list \<Rightarrow> BackboneSolverAPI \<Rightarrow> environment" where
  "sample_env name file_lines api =
     \<lparr>env_read_dimacs = (\<lambda>p. if p = name then Some api else None),
      env_ifstream = (\<lambda>p. if p = name then Some file_lines else None),
      env_hardware_concurrency = 4,
      env_exists = (\<lambda>p. True),
      env_create_directories = (\<lambda>p. None),
      env_ofstream = (\<lambda>p. True)\<rparr>"


text \<open>The formula \<open>(a)\<close>, whose only variable is core.\<close>

definition core_lines :: "string list" where
  "core_lines = [''c 1 a'', ''p cnf 1 1'', ''1 0'']"

definition core_api :: BackboneSolverAPI where
  "core_api =
     \<lparr>create_backbone_detector = sample_detector, get_max_variable = 1, compute_backbone = [1],
      compute_backbone_with_assumptions = (\<lambda>a. [1])\<rparr>"


definition sample_cli :: "environment \<Rightarrow> cli_environment" where
  "sample_cli env = \<lparr>cli_env = env, cli_parent_path = (\<lambda>p. []), cli_convert = (\<lambda>t i out. True)\<rparr>"

text \<open>The formula \<open>(x)\<close> whose only variable carries an auxiliary name, and the empty formula.\<close>

definition aux_only_lines :: "string list" where
  "aux_only_lines = [''c 1 aux_x'', ''p cnf 1 1'', ''1 0'']"

definition empty_lines :: "string list" where
  "empty_lines = [''p cnf 0 0'']"

definition empty_api :: BackboneSolverAPI where
  "empty_api =
     \<lparr>create_backbone_detector = sample_detector, get_max_variable = 0, compute_backbone = [],
      compute_backbone_with_assumptions = (\<lambda>a. [])\<rparr>"


text \<open>
  The formula \<open>(a)\<close> once more, with a comment that gives an index and no name in front of
  the name comment of variable 1, and a comment naming variable 31 auxiliary.
\<close>

definition bare_index_lines :: "string list" where
  "bare_index_lines = [''c 3'', ''c 1 a'', ''c 31 aux_x'', ''p cnf 1 1'', ''1 0'']"

section \<open>Properties\<close>

subsection \<open>Work partitioning\<close>


lemma length_make_workers:
  "length (make_workers vpt rem apis t k cur) = k"
  by (induction k arbitrary: t cur) (simp_all add: Let_def)

lemma extras_0: "extras rem t 0 = 0"
  by (simp add: extras_def)

lemma extras_Suc:
  "(if int t < rem then 1 else 0) + extras rem (Suc t) j = extras rem t (Suc j)"
  by (auto simp: extras_def min_def max_def)

lemma extras_zero_start: "0 \<le> rem \<Longrightarrow> extras rem 0 j = min rem (int j)"
  by (auto simp: extras_def min_def max_def)

lemma nth_make_workers:
  "j < k \<Longrightarrow>
     make_workers vpt rem apis t k cur ! j =
       \<lparr>thread_id = t + j,
        start_idx = cur + int j * vpt + extras rem t j,
        end_idx = cur + int j * vpt + extras rem t j + (vpt + (if int (t + j) < rem then 1 else 0)) - 1,
        bone_api = apis ! (t + j)\<rparr>"
proof (induction k arbitrary: t cur j)
  case 0
  then show ?case by simp
next
  case (Suc k)
  show ?case
  proof (cases j)
    case 0
    then show ?thesis by (simp add: Let_def extras_0)
  next
    case (Suc j')
    with Suc.prems have "j' < k" by simp
    from Suc.IH [OF this, of "Suc t"] Suc extras_Suc [of t rem j', symmetric]
    show ?thesis
      by (simp add: Let_def algebra_simps)
  qed
qed

lemma upto_append_next: "a \<le> b + 1 \<Longrightarrow> b \<le> c \<Longrightarrow> [a .. b] @ [b + 1 .. c] = [a .. c]"
  by (metis le_less not_less upto_Nil upto_split2 append_Nil zle_add1_eq_le)

lemma cover_make_workers:
  "0 \<le> vpt \<Longrightarrow>
     concat (map (\<lambda>w. [start_idx w .. end_idx w]) (make_workers vpt rem apis t k cur)) =
       [cur .. cur + int k * vpt + extras rem t k - 1]"
proof (induction k arbitrary: t cur)
  case 0
  then show ?case by (simp add: extras_0)
next
  case (Suc k)
  let ?count = "vpt + (if int t < rem then 1 else 0)"
  have e: "extras rem t (Suc k) = (if int t < rem then 1 else 0) + extras rem (Suc t) k"
    by (simp add: extras_Suc)
  have nonneg: "0 \<le> extras rem (Suc t) k"
    by (simp add: extras_def)
  have "concat (map (\<lambda>w. [start_idx w .. end_idx w]) (make_workers vpt rem apis t (Suc k) cur)) =
      [cur .. cur + ?count - 1] @ [cur + ?count - 1 + 1 .. cur + ?count - 1 + 1 + int k * vpt + extras rem (Suc t) k - 1]"
    using Suc.IH [OF Suc.prems, of "Suc t" "cur + ?count - 1 + 1"] by (simp add: Let_def)
  also have "\<dots> = [cur .. cur + ?count - 1 + 1 + int k * vpt + extras rem (Suc t) k - 1]"
  proof (rule upto_append_next)
    show "cur \<le> cur + ?count - 1 + 1" using Suc.prems by simp
    have "0 \<le> int k * vpt" using Suc.prems by simp
    with nonneg show "cur + ?count - 1 \<le> cur + ?count - 1 + 1 + int k * vpt + extras rem (Suc t) k - 1"
      by linarith
  qed
  also have "cur + ?count - 1 + 1 + int k * vpt + extras rem (Suc t) k - 1
       = cur + int (Suc k) * vpt + extras rem t (Suc k) - 1"
    unfolding e by (simp add: algebra_simps)
  finally show ?case .
qed

lemma map_nth_upto: "map (\<lambda>idx. xs ! nat idx) [0 .. int (length xs) - 1] = xs"
  by (rule nth_equalityI) simp_all

text \<open>
  With at least one requested worker and a non-empty candidate list, the driver uses
  \<open>min T |C|\<close> workers and the index ranges it hands out have \<open>\<lfloor>|C| / T_eff\<rfloor>\<close> elements, one
  more for each of the first \<open>|C| mod T_eff\<close> workers; each range starts where the previous
  one ended, and together they enumerate every index of \<open>C\<close>, hence every candidate, exactly
  once and in order.
\<close>

theorem partition_covers_candidates:
  assumes "1 \<le> num_of_threads" and "vars_to_process \<noteq> []"
  shows "let total = int (length vars_to_process);
             eff = effective_threads_of num_of_threads total
         in eff = min num_of_threads total \<and>
            (\<exists>workers.
               partition_workers total eff apis = Inr workers \<and>
               int (length workers) = eff \<and>
               (\<forall>t < length workers.
                  start_idx (workers ! t) = int t * (total div eff) + min (total mod eff) (int t) \<and>
                  end_idx (workers ! t) + 1 - start_idx (workers ! t) =
                    total div eff + (if int t < total mod eff then 1 else 0)) \<and>
               (\<forall>t. Suc t < length workers \<longrightarrow>
                  start_idx (workers ! Suc t) = end_idx (workers ! t) + 1) \<and>
               concat (map (\<lambda>w. [start_idx w .. end_idx w]) workers) = [0 .. total - 1] \<and>
               concat (map (\<lambda>w. map (\<lambda>idx. vars_to_process ! nat idx) [start_idx w .. end_idx w])
                         workers) = vars_to_process)"
proof -
  define total where "total = int (length vars_to_process)"
  define eff where "eff = effective_threads_of num_of_threads total"
  define vpt where "vpt = total div eff"
  define rem where "rem = total mod eff"
  define workers where "workers = make_workers vpt rem apis 0 (nat eff) 0"
  have total_pos: "1 \<le> total"
    using assms(2) by (cases vars_to_process) (simp_all add: total_def)
  have eff_min: "eff = min num_of_threads total"
    by (simp add: eff_def effective_threads_of_def)
  have eff_pos: "1 \<le> eff"
    using assms(1) total_pos by (simp add: eff_min)
  have vpt_nonneg: "0 \<le> vpt"
    using total_pos eff_pos by (simp add: vpt_def pos_imp_zdiv_nonneg_iff)
  have rem_bounds: "0 \<le> rem" "rem < eff"
    using eff_pos by (simp_all add: rem_def)
  have split_total: "int (nat eff) * vpt + rem = total"
    using eff_pos by (simp add: vpt_def rem_def)
  have part: "partition_workers total eff apis = Inr workers"
    using eff_pos by (simp add: partition_workers_def workers_def vpt_def rem_def)
  have len: "int (length workers) = eff"
    using eff_pos by (simp add: workers_def length_make_workers)
  have nth: "workers ! t =
       \<lparr>thread_id = t,
        start_idx = int t * vpt + min rem (int t),
        end_idx = int t * vpt + min rem (int t) + (vpt + (if int t < rem then 1 else 0)) - 1,
        bone_api = apis ! t\<rparr>" if "t < length workers" for t
    using that nth_make_workers [of t "nat eff" vpt rem apis 0 0] rem_bounds(1)
    by (simp add: workers_def length_make_workers extras_zero_start)
  have sizes: "\<forall>t < length workers.
       start_idx (workers ! t) = int t * vpt + min rem (int t) \<and>
       end_idx (workers ! t) + 1 - start_idx (workers ! t) = vpt + (if int t < rem then 1 else 0)"
    by (simp add: nth)
  have contiguous: "\<forall>t. Suc t < length workers \<longrightarrow>
       start_idx (workers ! Suc t) = end_idx (workers ! t) + 1"
  proof (intro allI impI)
    fix t assume st: "Suc t < length workers"
    then have t: "t < length workers" by simp
    show "start_idx (workers ! Suc t) = end_idx (workers ! t) + 1"
      by (simp add: nth [OF st] nth [OF t] min_def algebra_simps)
  qed
  have "extras rem 0 (nat eff) = rem"
    using rem_bounds eff_pos by (simp add: extras_zero_start)
  then have cover: "concat (map (\<lambda>w. [start_idx w .. end_idx w]) workers) = [0 .. total - 1]"
    using cover_make_workers [OF vpt_nonneg, of rem apis 0 "nat eff" 0] split_total
    by (simp add: workers_def)
  have "concat (map (\<lambda>w. map (\<lambda>idx. vars_to_process ! nat idx) [start_idx w .. end_idx w]) workers)
      = map (\<lambda>idx. vars_to_process ! nat idx) (concat (map (\<lambda>w. [start_idx w .. end_idx w]) workers))"
    by (simp add: map_concat comp_def)
  also have "\<dots> = vars_to_process"
    unfolding cover total_def by (rule map_nth_upto)
  finally have vars: "concat (map (\<lambda>w. map (\<lambda>idx. vars_to_process ! nat idx)
       [start_idx w .. end_idx w]) workers) = vars_to_process" .
  from eff_min part len sizes contiguous cover vars show ?thesis
    unfolding Let_def total_def [symmetric] eff_def [symmetric] vpt_def [symmetric] rem_def [symmetric]
    by blast
qed


theorem partition_covers_candidates_witness:
  "(1::int) \<le> 3 \<and> [1, 2, 3, 4, 5, 6, 7 :: int] \<noteq> [] \<and>
   (\<exists>workers.
      partition_workers 7 (effective_threads_of 3 7) [] = Inr workers \<and>
      int (length workers) = 3 \<and>
      (\<forall>t. Suc t < length workers \<longrightarrow> start_idx (workers ! Suc t) = end_idx (workers ! t) + 1) \<and>
      concat (map (\<lambda>w. [start_idx w .. end_idx w]) workers) = [0 .. 6] \<and>
      concat (map (\<lambda>w. map (\<lambda>idx. [1, 2, 3, 4, 5, 6, 7] ! nat idx) [start_idx w .. end_idx w])
                workers) = [1, 2, 3, 4, 5, 6, 7 :: int])"
  using partition_covers_candidates [of 3 "[1, 2, 3, 4, 5, 6, 7 :: int]" "[]"]
  by (simp add: Let_def effective_threads_of_def) blast

text \<open>
  With no candidate at all (no variable, or every variable filtered out) the effective worker
  count is 0, the driver takes the multi-threaded branch and line 642 divides by zero,
  whatever the requested worker count.
\<close>

lemma no_candidates_divides_by_zero:
  assumes "0 \<le> num_of_threads"
  shows "extract_edges rd path detector api n bb aux [] num_of_threads = Inl DivisionByZero"
  using assms
  by (simp add: extract_edges_def effective_threads_of_def partition_workers_def)

text \<open>
  C6 holds for every non-empty candidate list (the theorem above) and fails on the empty one,
  which is a candidate list like any other: when the only variable of the formula has an
  auxiliary name and filtering is on, or when the formula has no variable, \<open>C\<close> is empty,
  the worker count is capped at \<open>min T 0 = 0\<close>, and instead of handing out zero ranges the
  driver divides \<open>|C|\<close> by that count (lines 642-643): the run ends in a division by zero,
  for one requested worker as for three.
\<close>

theorem empty_candidate_list_division_by_zero:
  "build_vars_to_process True [False, True] 1 = [] \<and>
   effective_threads_of 1 0 = 0 \<and>
   generate_graphs_impl (sample_env ''x.dimacs'' aux_only_lines core_api)
     (set_filter_auxiliary True new_Impl) ''x.dimacs'' [] ''one'' 1 = Inl DivisionByZero \<and>
   generate_graphs_impl (sample_env ''x.dimacs'' aux_only_lines core_api)
     (set_filter_auxiliary True new_Impl) ''x.dimacs'' [] ''one'' 3 = Inl DivisionByZero \<and>
   generate_graphs_impl (sample_env ''e.dimacs'' empty_lines empty_api)
     new_Impl ''e.dimacs'' [] ''one'' 1 = Inl DivisionByZero"
  by code_simp

subsection \<open>One worker or many\<close>

lemma run_loop_append:
  "run_loop pv vars (xs @ ys) b =
     (case run_loop pv vars xs b of Inl c \<Rightarrow> Inl c | Inr b' \<Rightarrow> run_loop pv vars ys b')"
  by (induction xs arbitrary: b) (auto simp: Let_def split: sum.splits)

lemma append_buffers_empty [simp]:
  "append_buffers ([], [], []) b = b" "append_buffers b ([], [], []) = b"
  by (simp_all add: append_buffers_def)

lemma append_buffers_assoc:
  "append_buffers (append_buffers a b) c = append_buffers a (append_buffers b c)"
  by (simp add: append_buffers_def)

lemma run_loop_acc:
  "run_loop pv vars xs b =
     (case run_loop pv vars xs ([], [], []) of
        Inl c \<Rightarrow> Inl c
      | Inr d \<Rightarrow> Inr (append_buffers b d))"
proof (induction xs arbitrary: b)
  case Nil
  then show ?case by simp
next
  case (Cons idx idxs)
  show ?case
  proof (cases "0 \<le> idx \<and> idx < int (length vars)")
    case False
    then show ?thesis by auto
  next
    case True
    show ?thesis
    proof (cases "pv (vars ! nat idx)")
      case (Inl c)
      with True show ?thesis by simp
    next
      case (Inr p)
      obtain rs es where p: "p = (rs, es)" by (cases p)
      have step: "run_loop pv vars (idx # idxs) c =
          run_loop pv vars idxs (append_buffers c (rs, es, [[vars ! nat idx]]))" for c
        using True Inr p by (simp add: append_buffers_def)
      show ?thesis
        unfolding step
        by (subst Cons.IH, subst (2) Cons.IH)
           (simp add: append_buffers_assoc split: sum.splits)
    qed
  qed
qed

lemma merge_buffers_acc:
  "merge_buffers acc bs = append_buffers acc (merge_buffers ([], [], []) bs)"
proof (induction bs arbitrary: acc)
  case Nil
  then show ?case by simp
next
  case (Cons b bs)
  have "merge_buffers acc (b # bs) = merge_buffers (append_buffers acc b) bs"
    by (simp add: append_buffers_def)
  also have "\<dots> = append_buffers (append_buffers acc b) (merge_buffers ([], [], []) bs)"
    by (rule Cons.IH)
  also have "\<dots> = append_buffers acc (append_buffers b (merge_buffers ([], [], []) bs))"
    by (rule append_buffers_assoc)
  also have "append_buffers b (merge_buffers ([], [], []) bs) = merge_buffers ([], [], []) (b # bs)"
    using Cons.IH [of b] by (simp add: append_buffers_def)
  finally show ?case .
qed

lemma run_workers_as_loop:
  assumes "\<forall>w \<in> set ws. bone_api w = api"
  shows "(case run_workers n bb aux vars ws of
            Inl c \<Rightarrow> Inl c
          | Inr bs \<Rightarrow> Inr (merge_buffers ([], [], []) bs)) =
         run_loop (process_variable api n bb aux) vars
           (concat (map (\<lambda>w. [start_idx w .. end_idx w]) ws)) ([], [], [])"
  using assms
proof (induction ws)
  case Nil
  then show ?case by simp
next
  case (Cons w ws)
  then have api: "bone_api w = api" and rest: "\<forall>w \<in> set ws. bone_api w = api"
    by simp_all
  note IH = Cons.IH [OF rest]
  show ?case
  proof (cases "run n bb aux vars w")
    case (Inl c)
    then show ?thesis
      by (simp add: run_loop_append run_def api)
  next
    case (Inr b)
    then have first: "run_loop (process_variable api n bb aux) vars [start_idx w .. end_idx w] ([], [], []) = Inr b"
      by (simp add: run_def api)
    have "run_loop (process_variable api n bb aux) vars
            (concat (map (\<lambda>w. [start_idx w .. end_idx w]) (w # ws))) ([], [], []) =
          run_loop (process_variable api n bb aux) vars
            (concat (map (\<lambda>w. [start_idx w .. end_idx w]) ws)) b"
      by (simp add: run_loop_append first)
    also have "\<dots> = (case run_workers n bb aux vars ws of
            Inl c \<Rightarrow> Inl c
          | Inr bs \<Rightarrow> Inr (append_buffers b (merge_buffers ([], [], []) bs)))"
      by (subst run_loop_acc) (simp add: IH [symmetric] split: sum.splits)
    also have "\<dots> = (case run_workers n bb aux vars (w # ws) of
            Inl c \<Rightarrow> Inl c
          | Inr bs \<Rightarrow> Inr (merge_buffers ([], [], []) bs))"
      using merge_buffers_acc [of b] by (simp add: Inr append_buffers_def split: sum.splits)
    finally show ?thesis by simp
  qed
qed

lemma init_apis_replicate:
  assumes "read_dimacs dimacs_path = Some api" and "create_backbone_detector api detector"
  shows "init_apis read_dimacs dimacs_path detector t k = Inr (replicate k api)"
  using assms by (induction k arbitrary: t) simp_all

lemma make_workers_api:
  assumes "w \<in> set (make_workers vpt rem apis t k cur)"
  shows "\<exists>j < k. bone_api w = apis ! (t + j)"
proof -
  from assms obtain j where j: "j < k" and w: "w = make_workers vpt rem apis t k cur ! j"
    by (auto simp: in_set_conv_nth length_make_workers)
  from nth_make_workers [OF j, of vpt rem apis t cur] w have "bone_api w = apis ! (t + j)"
    by simp
  with j show ?thesis by blast
qed

lemma partition_workers_cover:
  assumes "1 \<le> eff" and "eff \<le> tot"
  shows "\<exists>ws. partition_workers tot eff apis = Inr ws \<and>
              concat (map (\<lambda>w. [start_idx w .. end_idx w]) ws) = [0 .. tot - 1] \<and>
              (\<forall>w \<in> set ws. \<exists>j < nat eff. bone_api w = apis ! j)"
proof -
  let ?ws = "make_workers (tot div eff) (tot mod eff) apis 0 (nat eff) 0"
  have vpt: "0 \<le> tot div eff"
    using assms by (simp add: pos_imp_zdiv_nonneg_iff)
  have "extras (tot mod eff) 0 (nat eff) = tot mod eff"
    using assms(1) by (simp add: extras_zero_start)
  moreover have "int (nat eff) * (tot div eff) + tot mod eff = tot"
    using assms(1) by simp
  ultimately have "concat (map (\<lambda>w. [start_idx w .. end_idx w]) ?ws) = [0 .. tot - 1]"
    using cover_make_workers [OF vpt, of "tot mod eff" apis 0 "nat eff" 0] by simp
  moreover have "partition_workers tot eff apis = Inr ?ws"
    using assms(1) by (simp add: partition_workers_def)
  moreover have "\<forall>w \<in> set ?ws. \<exists>j < nat eff. bone_api w = apis ! j"
    using make_workers_api [of _ "tot div eff" "tot mod eff" apis 0 "nat eff" 0] by simp
  ultimately show ?thesis by blast
qed

lemma extract_edges_threads:
  assumes load: "read_dimacs dimacs_path = Some api"
    and det: "create_backbone_detector api detector"
    and T: "1 \<le> num_of_threads"
  shows "extract_edges read_dimacs dimacs_path detector api n bb aux vars num_of_threads =
         extract_edges read_dimacs dimacs_path detector api n bb aux vars 1"
proof -
  define total where "total = int (length vars)"
  define eff where "eff = effective_threads_of num_of_threads total"
  have eff1: "effective_threads_of 1 total = min 1 total"
    by (simp add: effective_threads_of_def)
  have "0 \<le> total"
    by (simp add: total_def)
  moreover have "eff = min num_of_threads total"
    by (simp add: eff_def effective_threads_of_def)
  ultimately have "total = 0 \<or> (1 \<le> total \<and> eff = 1) \<or> (1 \<le> total \<and> 2 \<le> eff)"
    using T by (simp add: min_def) linarith
  then consider (empty) "total = 0" | (one) "1 \<le> total" "eff = 1"
    | (many) "1 \<le> total" "2 \<le> eff"
    by blast
  then show ?thesis
  proof cases
    case empty
    then have "effective_threads_of num_of_threads total = effective_threads_of 1 total"
      using T by (simp add: effective_threads_of_def)
    then show ?thesis
      by (simp add: extract_edges_def total_def)
  next
    case one
    then have "effective_threads_of num_of_threads total = effective_threads_of 1 total"
      by (simp add: eff_def eff1)
    then show ?thesis
      by (simp add: extract_edges_def total_def)
  next
    case many
    have le: "eff \<le> total"
      by (simp add: eff_def effective_threads_of_def)
    from many have pos: "1 \<le> eff" by simp
    from partition_workers_cover [OF pos le, of "replicate (nat eff) api"]
    obtain ws where part: "partition_workers total eff (replicate (nat eff) api) = Inr ws"
      and cover: "concat (map (\<lambda>w. [start_idx w .. end_idx w]) ws) = [0 .. total - 1]"
      and apis: "\<forall>w \<in> set ws. \<exists>j < nat eff. bone_api w = replicate (nat eff) api ! j"
      by blast
    from apis have same: "\<forall>w \<in> set ws. bone_api w = api"
      by auto
    have multi: "extract_edges read_dimacs dimacs_path detector api n bb aux vars num_of_threads =
        (case run_workers n bb aux vars ws of
           Inl c \<Rightarrow> Inl c
         | Inr bs \<Rightarrow> Inr (Inr (merge_buffers ([], [], []) bs)))"
      using many(2) part
        init_apis_replicate [where read_dimacs = read_dimacs and dimacs_path = dimacs_path
          and t = 0 and k = "nat eff", OF load det]
      by (simp add: extract_edges_def total_def [symmetric] eff_def [symmetric])
    have single: "extract_edges read_dimacs dimacs_path detector api n bb aux vars 1 =
        (case run_loop (process_variable api n bb aux) vars [0 .. total - 1] ([], [], []) of
           Inl c \<Rightarrow> Inl c
         | Inr b \<Rightarrow> Inr (Inr b))"
      using many(1) by (simp add: extract_edges_def total_def [symmetric] eff1)
    have loop: "run_loop (process_variable api n bb aux) vars [0 .. total - 1] ([], [], []) =
        (case run_workers n bb aux vars ws of
           Inl c \<Rightarrow> Inl c
         | Inr bs \<Rightarrow> Inr (merge_buffers ([], [], []) bs))"
      using run_workers_as_loop [OF same, of n bb aux vars] by (simp add: cover)
    show ?thesis
      unfolding multi single loop by (simp split: sum.splits)
  qed
qed

lemma max_threads_pos: "1 \<le> max_threads_of h"
  by (simp add: max_threads_of_def)

lemma analyse_threads:
  assumes "read_dimacs dimacs_path = Some api"
    and "create_backbone_detector api detector"
    and "1 \<le> num_of_threads"
    and "num_of_threads \<le> max_threads_of hardware_concurrency"
  shows "analyse read_dimacs hardware_concurrency dimacs_path detector api flt aux_vars
           num_of_threads =
         analyse read_dimacs hardware_concurrency dimacs_path detector api flt aux_vars 1"
proof -
  have "extract_edges read_dimacs dimacs_path detector api n bb aux vars num_of_threads =
        extract_edges read_dimacs dimacs_path detector api n bb aux vars 1" for n bb aux vars
    using assms(1,2,3) by (rule extract_edges_threads)
  then show ?thesis
    using assms(3,4) max_threads_pos [of hardware_concurrency]
    by (simp add: analyse_def Let_def split: sum.splits)
qed

subsection \<open>What a successful analysis holds\<close>

lemma run_loop_result:
  assumes "run_loop pv vars idxs b = Inr b'"
  shows "b' = append_buffers b
               (concat (map (\<lambda>i. requires_part pv (vars ! nat i)) idxs),
                concat (map (\<lambda>i. excludes_part pv (vars ! nat i)) idxs),
                map (\<lambda>i. [vars ! nat i]) idxs) \<and>
         (\<forall>i \<in> set idxs. \<exists>p. pv (vars ! nat i) = Inr p)"
  using assms
proof (induction idxs arbitrary: b)
  case Nil
  then show ?case by (simp add: append_buffers_def)
next
  case (Cons idx idxs)
  from Cons.prems have inb: "0 \<le> idx \<and> idx < int (length vars)"
    by (simp split: if_splits)
  from Cons.prems inb obtain rs es where pv: "pv (vars ! nat idx) = Inr (rs, es)"
    by (cases "pv (vars ! nat idx)") (auto simp: Let_def)
  with Cons.prems inb have
    "run_loop pv vars idxs (append_buffers b (rs, es, [[vars ! nat idx]])) = Inr b'"
    by (simp add: append_buffers_def)
  from Cons.IH [OF this] pv show ?case
    by (simp add: append_buffers_def requires_part_def excludes_part_def)
qed

lemma single_threaded_result:
  assumes "run_loop pv vars [0 .. int (length vars) - 1] ([], [], []) = Inr (rs, es, qs)"
  shows "rs = concat (map (requires_part pv) vars)"
    and "es = concat (map (excludes_part pv) vars)"
    and "qs = map (\<lambda>v. [v]) vars"
    and "\<forall>v \<in> set vars. \<exists>p. pv v = Inr p"
proof -
  let ?idxs = "[0 .. int (length vars) - 1]"
  have vars: "map (\<lambda>i. vars ! nat i) ?idxs = vars"
    by (rule map_nth_upto)
  have m: "map (\<lambda>i. f (vars ! nat i)) ?idxs = map f vars" for f :: "int \<Rightarrow> 'b"
    using arg_cong [OF vars, of "map f"] by (simp add: comp_def)
  from run_loop_result [OF assms]
  have b: "(rs, es, qs) =
      (concat (map (\<lambda>i. requires_part pv (vars ! nat i)) ?idxs),
       concat (map (\<lambda>i. excludes_part pv (vars ! nat i)) ?idxs),
       map (\<lambda>i. [vars ! nat i]) ?idxs)"
    and ok: "\<forall>i \<in> set ?idxs. \<exists>p. pv (vars ! nat i) = Inr p"
    by simp_all
  from b show "rs = concat (map (requires_part pv) vars)"
    and "es = concat (map (excludes_part pv) vars)"
    and "qs = map (\<lambda>v. [v]) vars"
    using m [of "requires_part pv"] m [of "excludes_part pv"] m [of "\<lambda>v. [v]"]
    by simp_all
  show "\<forall>v \<in> set vars. \<exists>p. pv v = Inr p"
  proof
    fix v assume "v \<in> set vars"
    then obtain k where k: "k < length vars" and v: "v = vars ! k"
      by (auto simp: in_set_conv_nth)
    then have "int k \<in> set ?idxs" by simp
    with ok have "\<exists>p. pv (vars ! nat (int k)) = Inr p" by blast
    with v show "\<exists>p. pv v = Inr p" by simp
  qed
qed

lemma extract_edges_single:
  assumes "extract_edges read_dimacs dimacs_path detector api n bb aux vars 1 = Inr (Inr (rs, es, qs))"
  shows "run_loop (process_variable api n bb aux) vars [0 .. int (length vars) - 1] ([], [], [])
           = Inr (rs, es, qs)"
proof (cases "vars = []")
  case True
  with assms show ?thesis
    by (simp add: extract_edges_def effective_threads_of_def partition_workers_def)
next
  case False
  then have "effective_threads_of 1 (int (length vars)) = 1"
    by (cases vars) (simp_all add: effective_threads_of_def)
  with assms show ?thesis
    by (simp add: extract_edges_def Let_def split: sum.splits)
qed

lemma analyse_success:
  assumes load: "rd path = Some api"
    and det: "create_backbone_detector api detector"
    and res: "analyse rd hc path detector api flt aux T = Inr (Inr (bb, rs, es, qs))"
  shows "to_indexed (get_max_variable api) (compute_backbone api) = Inr bb"
    and "1 \<le> T" and "T \<le> max_threads_of hc"
    and "rs = concat (map (requires_part (process_variable api (get_max_variable api) bb aux))
                 (build_vars_to_process flt aux (get_max_variable api)))"
    and "es = concat (map (excludes_part (process_variable api (get_max_variable api) bb aux))
                 (build_vars_to_process flt aux (get_max_variable api)))"
    and "qs = map (\<lambda>v. [v]) (build_vars_to_process flt aux (get_max_variable api))"
    and "\<forall>v \<in> set (build_vars_to_process flt aux (get_max_variable api)).
           \<exists>p. process_variable api (get_max_variable api) bb aux v = Inr p"
proof -
  let ?V = "get_max_variable api"
  let ?vars = "build_vars_to_process flt aux ?V"
  from res obtain bb' where bb': "to_indexed ?V (compute_backbone api) = Inr bb'"
    by (cases "to_indexed ?V (compute_backbone api)") (simp_all add: analyse_def Let_def)
  from res bb' show T1: "1 \<le> T"
    by (simp add: analyse_def Let_def split: if_splits)
  from res bb' show T2: "T \<le> max_threads_of hc"
    by (simp add: analyse_def Let_def split: if_splits)
  from res bb' T1 T2 have
    ex: "extract_edges rd path detector api ?V bb' aux ?vars T = Inr (Inr (rs, es, qs))"
    and bb_eq: "bb' = bb"
    by (auto simp: analyse_def Let_def split: sum.splits)
  from bb' bb_eq show "to_indexed ?V (compute_backbone api) = Inr bb" by simp
  from ex bb_eq
    extract_edges_threads [where read_dimacs = rd and dimacs_path = path and n = ?V and bb = bb
      and aux = aux and vars = ?vars, OF load det T1]
  have "extract_edges rd path detector api ?V bb aux ?vars 1 = Inr (Inr (rs, es, qs))"
    by simp
  then have loop: "run_loop (process_variable api ?V bb aux) ?vars [0 .. int (length ?vars) - 1]
      ([], [], []) = Inr (rs, es, qs)"
    by (rule extract_edges_single)
  from single_threaded_result [OF loop]
  show "rs = concat (map (requires_part (process_variable api ?V bb aux)) ?vars)"
    and "es = concat (map (excludes_part (process_variable api ?V bb aux)) ?vars)"
    and "qs = map (\<lambda>v. [v]) ?vars"
    and "\<forall>v \<in> set ?vars. \<exists>p. process_variable api ?V bb aux v = Inr p"
    by simp_all
qed

lemma process_variable_Inr:
  assumes "process_variable api n bb aux v = Inr p"
  shows "\<exists>line. to_indexed n (compute_backbone_with_assumptions api [v]) = Inr line \<and>
           p = (requires_of n line bb aux v, excludes_of n line bb aux v)"
  using assms by (auto simp: process_variable_def split: sum.splits)

lemma requires_of_iff:
  "(a, w) \<in> set (requires_of n line bb aux v) \<longleftrightarrow>
     a = v \<and> 1 \<le> w \<and> w \<le> int n \<and> w \<noteq> v \<and> line ! nat w = w \<and> bb ! nat w = 0 \<and> \<not> is_aux aux w"
  by (auto simp: requires_of_def)

lemma excludes_of_iff:
  "(a, w) \<in> set (excludes_of n line bb aux v) \<longleftrightarrow>
     a = v \<and> v \<le> w \<and> w \<le> int n \<and> line ! nat w = - w \<and> bb ! nat w \<noteq> - w
       \<and> bb ! nat v \<noteq> - v \<and> \<not> is_aux aux w"
  by (auto simp: excludes_of_def)

lemma requires_part_iff:
  assumes "process_variable api n bb aux v = Inr p"
    and "to_indexed n (compute_backbone_with_assumptions api [v]) = Inr line"
  shows "(a, w) \<in> set (requires_part (process_variable api n bb aux) v) \<longleftrightarrow>
     a = v \<and> 1 \<le> w \<and> w \<le> int n \<and> w \<noteq> v \<and> line ! nat w = w \<and> bb ! nat w = 0 \<and> \<not> is_aux aux w"
  using assms by (auto simp: requires_part_def process_variable_def requires_of_iff)

lemma excludes_part_iff:
  assumes "process_variable api n bb aux v = Inr p"
    and "to_indexed n (compute_backbone_with_assumptions api [v]) = Inr line"
  shows "(a, w) \<in> set (excludes_part (process_variable api n bb aux) v) \<longleftrightarrow>
     a = v \<and> v \<le> w \<and> w \<le> int n \<and> line ! nat w = - w \<and> bb ! nat w \<noteq> - w
       \<and> bb ! nat v \<noteq> - v \<and> \<not> is_aux aux w"
  using assms by (auto simp: excludes_part_def process_variable_def excludes_of_iff)






lemma set_build_vars:
  "set (build_vars_to_process flt aux n) =
     {v. 1 \<le> v \<and> v \<le> int n \<and> (flt \<longrightarrow> \<not> is_aux aux v)}"
  by (auto simp: build_vars_to_process_def)


subsection \<open>Indexed arrays\<close>

lemma fill_indexed_length:
  "fill_indexed lits l0 = Inr l \<Longrightarrow> length l = length l0"
  by (induction lits arbitrary: l0) (auto simp: Let_def split: if_splits)






subsection \<open>Requires and excludes edges\<close>






subsection \<open>Worker-count invariance\<close>

text \<open>
  C5. For every worker count between 1 and the number of cores the whole outcome of
  \<^verbatim>\<open>generate_graphs_impl\<close> (the value returned, the state, the edge lists and the text of
  the four files) is the one the single-threaded path produces.
\<close>

theorem worker_count_invariance:
  assumes "1 \<le> T" and "T \<le> max_threads_of (env_hardware_concurrency env)"
  shows "generate_graphs_impl env st dimacs_file output_folder detector T =
         generate_graphs_impl env st dimacs_file output_folder detector 1"
proof (cases "env_read_dimacs env (dimacs_path_of dimacs_file)")
  case None
  then show ?thesis by (simp add: generate_graphs_impl_def)
next
  case (Some api)
  show ?thesis
  proof (cases "create_backbone_detector api detector")
    case False
    with Some show ?thesis by (simp add: generate_graphs_impl_def)
  next
    case True
    have "analyse (env_read_dimacs env) (env_hardware_concurrency env) (dimacs_path_of dimacs_file)
            detector api flt aux T =
          analyse (env_read_dimacs env) (env_hardware_concurrency env) (dimacs_path_of dimacs_file)
            detector api flt aux 1" for flt aux
      using Some True assms by (rule analyse_threads)
    with Some True show ?thesis
      by (simp add: generate_graphs_impl_def Let_def cong: sum.case_cong)
  qed
qed

theorem worker_count_invariance_witness:
  "(1::int) \<le> 2 \<and>
   2 \<le> max_threads_of (env_hardware_concurrency (sample_env ''m.dimacs'' mediator_lines mediator_api)) \<and>
   generate_graphs_impl (sample_env ''m.dimacs'' mediator_lines mediator_api) new_Impl
     ''m.dimacs'' [] ''one'' 2 =
   generate_graphs_impl (sample_env ''m.dimacs'' mediator_lines mediator_api) new_Impl
     ''m.dimacs'' [] ''one'' 1"
proof -
  have h: "(1::int) \<le> 2"
    "2 \<le> max_threads_of (env_hardware_concurrency (sample_env ''m.dimacs'' mediator_lines mediator_api))"
    by (simp_all add: max_threads_of_def sample_env_def)
  from h worker_count_invariance [OF h] show ?thesis by blast
qed

subsection \<open>Which variables are queried\<close>

text \<open>
  C4. On the formula \<open>(a)\<close> the global backbone is \<open>[1]\<close>, and the run still hands the
  assumption \<open>[1]\<close> to \<^verbatim>\<open>compute_backbone_with_assumptions\<close>: variable 1 is in \<open>B*\<close> and is
  queried.
\<close>

theorem backbone_variable_is_queried:
  "case generate_graphs_impl (sample_env ''c.dimacs'' core_lines core_api) new_Impl
          ''c.dimacs'' [] ''one'' 1 of
     Inl c \<Rightarrow> False
   | Inr out \<Rightarrow> returned out \<and> global_backbone (impl out) = [1] \<and> queries out = [[1]]"
  by code_simp

subsection \<open>Input paths\<close>












subsection \<open>State across calls\<close>

lemma reset_forgets:
  assumes "filter_auxiliary (st' :: Impl) = filter_auxiliary (st :: Impl)"
  shows "st'\<lparr>num_variables := 0, num_clauses := 0, global_backbone := [], error_message := []\<rparr> =
         st\<lparr>num_variables := 0, num_clauses := 0, global_backbone := [], error_message := []\<rparr>"
  using assms by (cases st; cases st') simp

lemma generate_forgets:
  assumes "filter_auxiliary st' = filter_auxiliary st"
  shows "generate_graphs_impl env st' dimacs_file output_folder detector T =
         generate_graphs_impl env st dimacs_file output_folder detector T"
  unfolding generate_graphs_impl_def reset_forgets [OF assms] ..

lemma write_outputs_state:
  "num_variables (impl (write_outputs env st dir base b ents)) = num_variables st \<and>
   num_clauses (impl (write_outputs env st dir base b ents)) = num_clauses st \<and>
   global_backbone (impl (write_outputs env st dir base b ents)) = global_backbone st"
  by (simp add: write_outputs_def Let_def split: option.splits)

lemma failure_state:
  "num_variables (impl (failure st msg)) = num_variables st \<and>
   num_clauses (impl (failure st msg)) = num_clauses st \<and>
   global_backbone (impl (failure st msg)) = global_backbone st"
  by (simp add: failure_def)

lemma generate_state_values:
  assumes "generate_graphs_impl env st dimacs_file output_folder detector T = Inr out"
  shows "num_variables (impl out) = 0 \<and> num_clauses (impl out) = 0 \<and> global_backbone (impl out) = [] \<or>
         (\<exists>api. env_read_dimacs env (dimacs_path_of dimacs_file) = Some api \<and>
            num_variables (impl out) = int (get_max_variable api) \<and>
            (num_clauses (impl out) = 0 \<or>
             read_clause_count (env_ifstream env) (dimacs_path_of dimacs_file) 0
               = Inr (num_clauses (impl out))) \<and>
            (global_backbone (impl out) = [] \<or> global_backbone (impl out) = compute_backbone api))"
proof (cases "env_read_dimacs env (dimacs_path_of dimacs_file)")
  case None
  with assms show ?thesis
    by (auto simp: generate_graphs_impl_def failure_def)
next
  case (Some api)
  show ?thesis
  proof (cases "create_backbone_detector api detector")
    case False
    with Some assms show ?thesis
      by (auto simp: generate_graphs_impl_def failure_def)
  next
    case True
    with Some assms show ?thesis
      by (auto simp: generate_graphs_impl_def Let_def failure_state write_outputs_state
          split: sum.splits)
  qed
qed

text \<open>
  C10. The outcome of a call does not depend on the variable count, clause count, backbone or
  error message the object held before: they are reset first. After a call that returned
  false the getters give the reset values or the values the failed call itself had filled in
  so far.
\<close>

theorem state_not_preserved_on_error:
  assumes "generate_graphs_impl env st dimacs_file output_folder detector T = Inr out"
    and "\<not> returned out"
  shows "(\<forall>st'. filter_auxiliary st' = filter_auxiliary st \<longrightarrow>
            generate_graphs_impl env st' dimacs_file output_folder detector T = Inr out) \<and>
         (num_variables (impl out) = 0 \<and> num_clauses (impl out) = 0 \<and> global_backbone (impl out) = [] \<or>
          (\<exists>api. env_read_dimacs env (dimacs_path_of dimacs_file) = Some api \<and>
             num_variables (impl out) = int (get_max_variable api) \<and>
             (num_clauses (impl out) = 0 \<or>
              read_clause_count (env_ifstream env) (dimacs_path_of dimacs_file) 0
                = Inr (num_clauses (impl out))) \<and>
             (global_backbone (impl out) = [] \<or> global_backbone (impl out) = compute_backbone api)))"
  using generate_forgets [of _ st env dimacs_file output_folder detector T]
    generate_state_values [OF assms(1)] assms(1)
  by simp

theorem state_not_preserved_on_error_witness:
  "generate_graphs_impl (sample_env ''c.dimacs'' core_lines core_api)
     \<lparr>num_variables = 1, num_clauses = 1, global_backbone = [1], error_message = [],
      filter_auxiliary = False\<rparr> ''missing'' [] ''one'' 1 =
     Inr (failure new_Impl (load_error ''missing.dimacs'')) \<and>
   \<not> returned (failure new_Impl (load_error ''missing.dimacs'')) \<and>
   generate_graphs_impl (sample_env ''c.dimacs'' core_lines core_api) new_Impl ''missing'' []
     ''one'' 1 = Inr (failure new_Impl (load_error ''missing.dimacs'')) \<and>
   num_variables (impl (failure new_Impl (load_error ''missing.dimacs''))) = 0 \<and>
   num_clauses (impl (failure new_Impl (load_error ''missing.dimacs''))) = 0 \<and>
   global_backbone (impl (failure new_Impl (load_error ''missing.dimacs''))) = []"
proof -
  let ?env = "sample_env ''c.dimacs'' core_lines core_api"
  let ?prev = "\<lparr>num_variables = 1, num_clauses = 1, global_backbone = [1], error_message = [],
      filter_auxiliary = False\<rparr>"
  let ?out = "failure new_Impl (load_error ''missing.dimacs'')"
  have h1: "generate_graphs_impl ?env ?prev ''missing'' [] ''one'' 1 = Inr ?out"
    by (simp add: generate_graphs_impl_def sample_env_def dimacs_path_of_def new_Impl_def)
  have h2: "\<not> returned ?out"
    by (simp add: failure_def)
  from state_not_preserved_on_error [OF h1 h2] h1 h2 show ?thesis
    by (simp add: failure_def new_Impl_def)
qed

subsection \<open>The words of a name comment\<close>

lemma split_words_no_space:
  assumes "\<forall>c \<in> set word. \<not> isspace c" and "w \<in> set (split_words word s)"
  shows "\<forall>c \<in> set w. \<not> isspace c"
  using assms
proof (induction s arbitrary: word)
  case Nil
  then show ?case by (auto split: if_splits)
next
  case (Cons a s)
  show ?case
  proof (cases "isspace a")
    case True
    with Cons.prems have "w = word \<or> w \<in> set (split_words [] s)"
      by (auto split: if_splits)
    then show ?thesis
    proof
      assume "w = word"
      with Cons.prems(1) show ?thesis by simp
    next
      assume "w \<in> set (split_words [] s)"
      with Cons.IH [of "[]"] show ?thesis by simp
    qed
  next
    case False
    with Cons.prems have "w \<in> set (split_words (word @ [a]) s)" by simp
    moreover from False Cons.prems(1) have "\<forall>c \<in> set (word @ [a]). \<not> isspace c" by simp
    ultimately show ?thesis by (rule Cons.IH [rotated])
  qed
qed

lemma parse_comment_words:
  assumes "parse_comment line_str = Some (v, ws)" and "w \<in> set ws"
  shows "\<forall>c \<in> set w. \<not> isspace c"
  using assms split_words_no_space [of "[]" w]
  by (auto simp: parse_comment_def extract_words_def split: option.splits)

subsection \<open>Exit codes\<close>

lemma parse_args_codes:
  "parse_args args opts = Inl code \<Longrightarrow> code = 0 \<or> code = 1"
proof (induction args opts rule: parse_args.induct)
  case (1 opts)
  then show ?case by simp
next
  case (2 arg rest opts)
  show ?case
  proof (cases rest)
    case Nil
    with 2 show ?thesis by (simp split: if_splits)
  next
    case (Cons v rest')
    with 2 show ?thesis by (simp split: if_splits)
  qed
qed

lemma parse_args_zero:
  "parse_args args opts = Inl 0 \<Longrightarrow> \<exists>h \<in> set args. is_option h ''-h'' ''--help''"
proof (induction args opts rule: parse_args.induct)
  case (1 opts)
  then show ?case by simp
next
  case (2 arg rest opts)
  show ?case
  proof (cases rest)
    case Nil
    with 2 show ?thesis by (simp split: if_splits)
  next
    case (Cons v rest')
    with 2 show ?thesis by (simp split: if_splits)
  qed
qed

lemma option_dash:
  "is_option arg ''-t'' ''--threads'' \<Longrightarrow> arg \<noteq> [] \<and> hd arg = CHR ''-''"
  "is_option arg ''-o'' ''--output'' \<Longrightarrow> arg \<noteq> [] \<and> hd arg = CHR ''-''"
  by (auto simp: is_option_def)

lemma parse_args_Cons:
  "parse_args (arg # rest) opts =
     (if is_option arg ''-h'' ''--help'' then Inl 0
      else if is_option arg ''-k'' ''--keep-dimacs'' then parse_args rest (opts\<lparr>keep_dimacs := True\<rparr>)
      else if is_option arg ''-e'' ''--enable-tseitin''
        then parse_args rest (opts\<lparr>use_tseitin := True\<rparr>)
      else if is_option arg ''-t'' ''--threads'' \<and> rest \<noteq> [] then
        (if atoi (hd rest) < 1 then Inl 1
         else parse_args (tl rest) (opts\<lparr>num_threads := atoi (hd rest)\<rparr>))
      else if is_option arg ''-o'' ''--output'' \<and> rest \<noteq> [] then
        parse_args (tl rest) (opts\<lparr>output_dir := hd rest\<rparr>)
      else if arg = [] \<or> hd arg \<noteq> CHR ''-'' then parse_args rest (opts\<lparr>input_file := arg\<rparr>)
      else Inl 1)"
  by (cases rest) simp_all

lemma parse_args_append:
  "parse_args pre opts = Inr opts' \<Longrightarrow> parse_args (pre @ rest) opts = parse_args rest opts'"
proof (induction "length pre" arbitrary: pre opts rule: less_induct)
  case less
  show ?case
  proof (cases pre)
    case Nil
    with less.prems show ?thesis by simp
  next
    case (Cons arg rest0)
    define H where "H = is_option arg ''-h'' ''--help''"
    define K where "K = is_option arg ''-k'' ''--keep-dimacs''"
    define E where "E = is_option arg ''-e'' ''--enable-tseitin''"
    define Th where "Th = is_option arg ''-t'' ''--threads''"
    define Ou where "Ou = is_option arg ''-o'' ''--output''"
    define P where "P \<longleftrightarrow> arg = [] \<or> hd arg \<noteq> CHR ''-''"
    note step = parse_args_Cons [of arg, folded H_def K_def E_def Th_def Ou_def P_def]
    have dash: "Th \<Longrightarrow> \<not> P" "Ou \<Longrightarrow> \<not> P"
      using option_dash [of arg] by (auto simp: Th_def Ou_def P_def)
    have ih: "parse_args (pre' @ rest) o1 = parse_args rest opts'"
      if "parse_args pre' o1 = Inr opts'" "length pre' \<le> length rest0" for pre' o1
      using less.hyps [of pre' o1] that Cons by simp
    have tl: "length (tl rest0) \<le> length rest0" by simp
    from less.prems Cons have prem: "parse_args (arg # rest0) opts = Inr opts'" by simp
    have goal: "parse_args (arg # rest0 @ rest) opts = parse_args rest opts'"
    proof (cases "rest0 = []")
      case True
      with prem dash show ?thesis
        by (auto simp: step simp del: parse_args.simps(2) split: if_split_asm)
    next
      case False
      then have "rest0 @ rest \<noteq> []" "hd (rest0 @ rest) = hd rest0"
        "tl (rest0 @ rest) = tl rest0 @ rest" by simp_all
      with prem False ih [OF _ order_refl] ih [OF _ tl] show ?thesis
        by (auto simp: step simp del: parse_args.simps(2) split: if_split_asm)
    qed
    with Cons show ?thesis by simp
  qed
qed

lemma prepare_codes:
  "prepare ce opts = Inl code \<Longrightarrow> code = 1"
  by (auto simp: prepare_def Let_def split: if_splits)

lemma run_pipeline_codes:
  "run_pipeline ce opts = Inr code \<Longrightarrow> code = 0 \<or> code = 1"
  by (auto simp: run_pipeline_def dest: prepare_codes split: sum.splits if_splits)


lemma option_distinct:
  "is_option arg ''-t'' ''--threads'' \<Longrightarrow>
     \<not> is_option arg ''-h'' ''--help'' \<and> \<not> is_option arg ''-k'' ''--keep-dimacs'' \<and>
     \<not> is_option arg ''-e'' ''--enable-tseitin''"
  "is_option arg ''-o'' ''--output'' \<Longrightarrow>
     \<not> is_option arg ''-h'' ''--help'' \<and> \<not> is_option arg ''-k'' ''--keep-dimacs'' \<and>
     \<not> is_option arg ''-e'' ''--enable-tseitin'' \<and> \<not> is_option arg ''-t'' ''--threads''"
  by (auto simp: is_option_def)

lemma parse_args_help:
  "is_option arg ''-h'' ''--help'' \<Longrightarrow> parse_args (arg # post) opts = Inl 0"
  by simp

lemma parse_args_thread_count:
  assumes "is_option arg ''-t'' ''--threads''" "atoi v < 1"
  shows "parse_args (arg # v # post) opts = Inl 1"
  using assms option_distinct(1) [OF assms(1)] by simp

lemma parse_args_missing_value:
  assumes "is_option arg ''-t'' ''--threads'' \<or> is_option arg ''-o'' ''--output''"
  shows "parse_args [arg] opts = Inl 1"
proof -
  from assms have "arg \<noteq> [] \<and> hd arg = CHR ''-''" using option_dash by blast
  moreover from assms have "\<not> is_option arg ''-h'' ''--help'' \<and>
      \<not> is_option arg ''-k'' ''--keep-dimacs'' \<and> \<not> is_option arg ''-e'' ''--enable-tseitin''"
    using option_distinct by blast
  ultimately show ?thesis by simp
qed

lemma parse_args_unknown:
  assumes "arg \<noteq> []" "hd arg = CHR ''-''" "\<not> known_option arg"
  shows "parse_args (arg # post) opts = Inl 1"
  using assms by (simp add: known_option_def parse_args_Cons del: parse_args.simps)

text \<open>
  C8, amended. Whenever \<^verbatim>\<open>main\<close> returns, the exit code is 0 or 1, and it is 0 only when a
  help option is among the arguments or \<^verbatim>\<open>generate_graphs\<close> returned true: every error ends
  in 1, none in 2. In detail: without arguments the code is 1; when the arguments before it are
  read without an early return, a help option gives 0, a thread count below 1 gives 1,
  \<^verbatim>\<open>-t\<close> or \<^verbatim>\<open>-o\<close> without a value gives 1 and an unknown option gives 1; when all
  arguments are read, a failed input check or conversion gives 1, and otherwise the code is 0
  if \<^verbatim>\<open>generate_graphs\<close> returned true and 1 if it returned false.
\<close>

theorem exit_codes:
  "(main ce args = Inr code \<longrightarrow> code = 0 \<or> code = 1) \<and>
   (main ce args = Inr 0 \<longrightarrow>
      (\<exists>h \<in> set args. is_option h ''-h'' ''--help'') \<or>
      (\<exists>opts target out.
         parse_args args default_options = Inr opts \<and> prepare ce opts = Inr target \<and>
         generate_graphs_impl (cli_env ce) (graph_api_of opts) (fst target) (snd target) ''one''
           (num_threads opts) = Inr out \<and> returned out)) \<and>
   (args = [] \<longrightarrow> main ce args = Inr 1) \<and>
   (parse_args pre default_options = Inr opts' \<longrightarrow>
      (is_option arg ''-h'' ''--help'' \<longrightarrow> main ce (pre @ arg # post) = Inr 0) \<and>
      (is_option arg ''-t'' ''--threads'' \<longrightarrow> atoi v < 1 \<longrightarrow>
         main ce (pre @ arg # v # post) = Inr 1) \<and>
      (is_option arg ''-t'' ''--threads'' \<or> is_option arg ''-o'' ''--output'' \<longrightarrow>
         main ce (pre @ [arg]) = Inr 1) \<and>
      (arg \<noteq> [] \<longrightarrow> hd arg = CHR ''-'' \<longrightarrow> \<not> known_option arg \<longrightarrow>
         main ce (pre @ arg # post) = Inr 1)) \<and>
   (args \<noteq> [] \<longrightarrow> parse_args args default_options = Inr opts \<longrightarrow>
      (prepare ce opts = Inl code \<longrightarrow> main ce args = Inr 1) \<and>
      (prepare ce opts = Inr target \<longrightarrow>
         generate_graphs_impl (cli_env ce) (graph_api_of opts) (fst target) (snd target) ''one''
           (num_threads opts) = Inr out \<longrightarrow>
         main ce args = Inr (if returned out then 0 else 1)))"
proof -
  have c1: "code = 0 \<or> code = 1" if "main ce args = Inr code"
    using that parse_args_codes [of args default_options code] run_pipeline_codes [of ce _ code]
    by (auto simp: main_def split: if_splits sum.splits)
  have c2: "(\<exists>h \<in> set args. is_option h ''-h'' ''--help'') \<or>
      (\<exists>opts target out.
         parse_args args default_options = Inr opts \<and> prepare ce opts = Inr target \<and>
         generate_graphs_impl (cli_env ce) (graph_api_of opts) (fst target) (snd target) ''one''
           (num_threads opts) = Inr out \<and> returned out)"
    if m: "main ce args = Inr 0"
  proof (cases "parse_args args default_options")
    case (Inl c)
    with m have "c = 0" by (simp add: main_def split: if_splits)
    with Inl parse_args_zero [of args default_options] show ?thesis by simp
  next
    case (Inr opts)
    with m have rp: "run_pipeline ce opts = Inr 0" by (simp add: main_def split: if_splits)
    show ?thesis
    proof (cases "prepare ce opts")
      case (Inl c)
      with rp prepare_codes [OF Inl] show ?thesis by (simp add: run_pipeline_def)
    next
      case target: (Inr target)
      with rp obtain out where
        "generate_graphs_impl (cli_env ce) (graph_api_of opts) (fst target) (snd target) ''one''
           (num_threads opts) = Inr out" "returned out"
        by (auto simp: run_pipeline_def split: sum.splits if_splits)
      with Inr target show ?thesis by blast
    qed
  qed
  have c3: "main ce args = Inr 1" if "args = []"
    using that by (simp add: main_def)
  have loop: "main ce (pre @ rest) = Inr c"
    if "parse_args pre default_options = Inr opts'" "parse_args rest opts' = Inl c" "rest \<noteq> []"
    for rest c
    using that parse_args_append [OF that(1), of rest] by (simp add: main_def)
  have c4: "main ce (pre @ arg # post) = Inr 0"
    if "parse_args pre default_options = Inr opts'" "is_option arg ''-h'' ''--help''"
    using loop [OF that(1) parse_args_help [OF that(2)]] by simp
  have c5: "main ce (pre @ arg # v # post) = Inr 1"
    if "parse_args pre default_options = Inr opts'" "is_option arg ''-t'' ''--threads''"
      "atoi v < 1"
    using loop [OF that(1) parse_args_thread_count [OF that(2,3)]] by simp
  have c6: "main ce (pre @ [arg]) = Inr 1"
    if "parse_args pre default_options = Inr opts'"
      "is_option arg ''-t'' ''--threads'' \<or> is_option arg ''-o'' ''--output''"
    using loop [OF that(1) parse_args_missing_value [OF that(2)]] by simp
  have c7: "main ce (pre @ arg # post) = Inr 1"
    if "parse_args pre default_options = Inr opts'" "arg \<noteq> []" "hd arg = CHR ''-''"
      "\<not> known_option arg"
    using loop [OF that(1) parse_args_unknown [OF that(2,3,4)]] by simp
  have c8: "main ce args = Inr 1"
    if "args \<noteq> []" "parse_args args default_options = Inr opts" "prepare ce opts = Inl code"
    using that prepare_codes [OF that(3)] by (simp add: main_def run_pipeline_def)
  have c9: "main ce args = Inr (if returned out then 0 else 1)"
    if "args \<noteq> []" "parse_args args default_options = Inr opts" "prepare ce opts = Inr target"
      "generate_graphs_impl (cli_env ce) (graph_api_of opts) (fst target) (snd target) ''one''
         (num_threads opts) = Inr out"
    using that by (simp add: main_def run_pipeline_def)
  show ?thesis
    by (intro conjI impI) (fact c1 c2 c3 c4 c5 c6 c7 c8 c9)+
qed


theorem exit_codes_witness:
  "parse_args [''c.dimacs'', ''-t'', ''8''] default_options =
     Inr (default_options\<lparr>input_file := ''c.dimacs'', num_threads := 8\<rparr>) \<and>
   prepare (sample_cli (sample_env ''c.dimacs'' core_lines core_api))
     (default_options\<lparr>input_file := ''c.dimacs'', num_threads := 8\<rparr>) = Inr (''c.dimacs'', ''.'') \<and>
   main (sample_cli (sample_env ''c.dimacs'' core_lines core_api)) [''c.dimacs'', ''-t'', ''8'']
     = Inr 1 \<and>
   parse_args [''c.dimacs''] default_options = Inr (default_options\<lparr>input_file := ''c.dimacs''\<rparr>) \<and>
   is_option ''--help'' ''-h'' ''--help'' \<and>
   main (sample_cli (sample_env ''c.dimacs'' core_lines core_api)) [''c.dimacs'', ''--help'', ''-x'']
     = Inr 0 \<and>
   is_option ''-t'' ''-t'' ''--threads'' \<and> atoi ''2147483648'' < 1 \<and>
   main (sample_cli (sample_env ''c.dimacs'' core_lines core_api))
     [''c.dimacs'', ''-t'', ''2147483648''] = Inr 1 \<and>
   main (sample_cli (sample_env ''c.dimacs'' core_lines core_api)) [''c.dimacs'', ''-t''] = Inr 1 \<and>
   known_option ''-x'' = False \<and>
   main (sample_cli (sample_env ''c.dimacs'' core_lines core_api)) [''c.dimacs'', ''-x'', ''-h'']
     = Inr 1 \<and>
   main (sample_cli (sample_env ''c.dimacs'' core_lines core_api)) [''c.dimacs''] = Inr 0"
proof -
  let ?ce = "sample_cli (sample_env ''c.dimacs'' core_lines core_api)"
  let ?opts = "default_options\<lparr>input_file := ''c.dimacs'', num_threads := 8\<rparr>"
  let ?pre = "default_options\<lparr>input_file := ''c.dimacs''\<rparr>"
  let ?out = "failure \<lparr>num_variables = 1, num_clauses = 1, global_backbone = [1],
       error_message = [], filter_auxiliary = False\<rparr>
     ''Requested 8 threads but only 4 cores available. Reduce thread count.''"
  have h0: "[''c.dimacs'', ''-t'', ''8''] \<noteq> []" by simp
  have h1: "parse_args [''c.dimacs'', ''-t'', ''8''] default_options = Inr ?opts"
    by code_simp
  have h2: "prepare ?ce ?opts = Inr (''c.dimacs'', ''.'')"
    by code_simp
  have h3: "generate_graphs_impl (cli_env ?ce) (graph_api_of ?opts) (fst (''c.dimacs'', ''.''))
      (snd (''c.dimacs'', ''.'')) ''one'' (num_threads ?opts) = Inr ?out"
    by code_simp
  have h4: "\<not> returned ?out" by (simp add: failure_def)
  have p: "parse_args [''c.dimacs''] default_options = Inr ?pre" by code_simp
  have oh: "is_option ''--help'' ''-h'' ''--help''" by (simp add: is_option_def)
  have ot: "is_option ''-t'' ''-t'' ''--threads''" by (simp add: is_option_def)
  have a: "atoi ''2147483648'' < 1" by code_simp
  have x: "known_option ''-x'' = False" by code_simp
  have x': "''-x'' \<noteq> []" "hd ''-x'' = CHR ''-''" by simp_all
  note inst = exit_codes [where ce = ?ce and args = "[''c.dimacs'', ''-t'', ''8'']" and code = 1
      and opts = ?opts and target = "(''c.dimacs'', ''.'')" and out = ?out
      and pre = "[''c.dimacs'']" and opts' = ?pre]
  from inst [where arg = "''-t''" and v = "''2147483648''" and post = "[]"] h0 h1 h2 h3 h4 p ot a
  have m8: "main ?ce [''c.dimacs'', ''-t'', ''8''] = Inr 1"
    and mt: "main ?ce [''c.dimacs'', ''-t'', ''2147483648''] = Inr 1"
    and mv: "main ?ce [''c.dimacs'', ''-t''] = Inr 1" by simp_all
  from inst [where arg = "''--help''" and post = "[''-x'']"] p oh
  have mh: "main ?ce [''c.dimacs'', ''--help'', ''-x''] = Inr 0" by simp
  from inst [where arg = "''-x''" and post = "[''-h'']"] p x x'
  have mx: "main ?ce [''c.dimacs'', ''-x'', ''-h''] = Inr 1" by simp
  have m1: "main ?ce [''c.dimacs''] = Inr 0" by code_simp
  show ?thesis
    by (intro conjI h1 h2 m8 p oh mh ot a mt mv x mx m1)
qed

text \<open>
  A thread count outside the range of \<^verbatim>\<open>int\<close> is reduced before it is checked:
  \<^verbatim>\<open>-t 4294967297\<close> runs one thread.
\<close>

lemma thread_count_wraps:
  "atoi ''4294967297'' = 1 \<and> atoi ''2147483648'' = - 2147483648 \<and>
   atoi ''99999999999999999999'' = - 1 \<and> atoi ''x'' = 0 \<and>
   main (sample_cli (sample_env ''c.dimacs'' core_lines core_api))
     [''c.dimacs'', ''-t'', ''4294967297''] = Inr 0"
  by code_simp

text \<open>
  C8, as stated, fails: when graph generation fails on an input that was loaded (here because
  an output file cannot be created, or because more threads than cores were asked for),
  \<^verbatim>\<open>main\<close> returns 1, not 2.
\<close>

theorem analysis_error_exit_code_counterexample:
  "(case generate_graphs_impl
           ((sample_env ''c.dimacs'' core_lines core_api)\<lparr>env_ofstream := (\<lambda>p. False)\<rparr>)
           new_Impl ''c.dimacs'' ''.'' ''one'' 1 of
      Inl c \<Rightarrow> False
    | Inr out \<Rightarrow>
        \<not> returned out \<and> num_variables (impl out) = 1 \<and> queries out = [[1]] \<and>
        error_message (impl out) = ''Could not create output file: ./c__core.txt'') \<and>
   main (sample_cli ((sample_env ''c.dimacs'' core_lines core_api)\<lparr>env_ofstream := (\<lambda>p. False)\<rparr>))
     [''c.dimacs''] = Inr 1 \<and>
   (case generate_graphs_impl (sample_env ''c.dimacs'' core_lines core_api)
           new_Impl ''c.dimacs'' ''.'' ''one'' 8 of
      Inl c \<Rightarrow> False
    | Inr out \<Rightarrow>
        \<not> returned out \<and> num_variables (impl out) = 1 \<and>
        error_message (impl out) =
          ''Requested 8 threads but only 4 cores available. Reduce thread count.'') \<and>
   main (sample_cli (sample_env ''c.dimacs'' core_lines core_api)) [''c.dimacs'', ''-t'', ''8'']
     = Inr 1"
  by code_simp

subsection \<open>Auxiliary variables\<close>

lemma is_aux_mark_aux:
  assumes "0 \<le> n" and "0 \<le> v"
  shows "is_aux (mark_aux aux n) v \<longleftrightarrow> v = n \<or> is_aux aux v"
proof (cases "n \<ge> int (length aux)")
  case True
  let ?ext = "aux @ replicate (nat n + 1 - length aux) False"
  have len: "length ?ext = nat n + 1" using True assms(1) by simp
  show ?thesis
  proof (cases "v = n")
    case True
    with assms len show ?thesis
      using \<open>n \<ge> int (length aux)\<close> by (simp add: is_aux_def mark_aux_def)
  next
    case False
    then have ne: "nat v \<noteq> nat n" using assms by simp
    have "is_aux (mark_aux aux n) v \<longleftrightarrow> v < int (nat n + 1) \<and> ?ext ! nat v"
      using True ne len by (simp add: is_aux_def mark_aux_def)
    also have "\<dots> \<longleftrightarrow> is_aux aux v"
      using True assms False by (auto simp: is_aux_def nth_append)
    finally show ?thesis using False by simp
  qed
next
  case False
  then show ?thesis
    using assms by (auto simp: is_aux_def mark_aux_def nth_list_update)
qed

lemma named_aux_Cons:
  "named_aux (l # ls) v \<longleftrightarrow>
     (l \<noteq> [] \<and> hd l = CHR ''c'' \<and>
      (case parse_comment l of None \<Rightarrow> False | Some (n, ws) \<Rightarrow> n = v \<and> is_aux_name ws))
     \<or> named_aux ls v"
  by (simp add: named_aux_def)

lemma named_aux_Nil: "\<not> named_aux [] v"
  by (simp add: named_aux_def)

lemma scan_feature_names_aux:
  assumes "scan_feature_names file_lines aux0 = Inr aux"
  shows "(named_aux file_lines v \<longrightarrow> 0 \<le> v) \<and>
         (0 \<le> v \<longrightarrow> (is_aux aux v \<longleftrightarrow> is_aux aux0 v \<or> named_aux file_lines v))"
  using assms
proof (induction file_lines arbitrary: aux0)
  case Nil
  then show ?case by (simp add: named_aux_Nil)
next
  case (Cons l ls)
  show ?case
  proof (cases "l \<noteq> [] \<and> hd l = CHR ''c''")
    case False
    with Cons.prems have "scan_feature_names ls aux0 = Inr aux"
      by (auto split: if_splits)
    from Cons.IH [OF this] False show ?thesis
      by (auto simp: named_aux_Cons)
  next
    case c: True
    show ?thesis
    proof (cases "parse_comment l")
      case None
      with c Cons.prems have "scan_feature_names ls aux0 = Inr aux" by simp
      from Cons.IH [OF this] None show ?thesis
        by (auto simp: named_aux_Cons)
    next
      case (Some p)
      obtain n ws where p: "p = (n, ws)" by (cases p)
      show ?thesis
      proof (cases "is_aux_name ws")
        case False
        with c Some p Cons.prems have "scan_feature_names ls aux0 = Inr aux" by simp
        from Cons.IH [OF this] Some p False show ?thesis
          by (auto simp: named_aux_Cons)
      next
        case True
        with c Some p Cons.prems have n: "0 \<le> n"
          and rest: "scan_feature_names ls (mark_aux aux0 n) = Inr aux"
          by (auto split: if_splits)
        from Cons.IH [OF rest] is_aux_mark_aux [OF n, of v aux0] c Some p True n show ?thesis
          by (auto simp: named_aux_Cons)
      qed
    qed
  qed
qed

lemma is_aux_replicate_False: "0 \<le> v \<Longrightarrow> \<not> is_aux (replicate n False) v"
  by (auto simp: is_aux_def)

lemma load_aux_vars_filtering:
  assumes "load_aux_vars ifstream path True n = Inr (Inr aux)" and "0 \<le> v"
  shows "is_aux aux v \<longleftrightarrow> named_aux (all_lines ifstream path) v"
proof -
  from assms(1) obtain file_lines where open_ok: "ifstream path = Some file_lines"
    and scan: "scan_feature_names file_lines (replicate (n + 1) False) = Inr aux"
    by (auto simp: load_aux_vars_def read_feature_names_def split: option.splits sum.splits)
  have "\<not> is_aux (replicate (n + 1) False) v"
    using assms(2) by (rule is_aux_replicate_False)
  with scan_feature_names_aux [OF scan, of v] assms(2)
  show ?thesis by (simp only: all_lines_def open_ok option.case) blast
qed

lemma write_outputs_computed:
  "entries (write_outputs env st dir base b ents) = ents \<and>
   requires_edges (write_outputs env st dir base b ents) = fst b \<and>
   excludes_edges (write_outputs env st dir base b ents) = fst (snd b) \<and>
   queries (write_outputs env st dir base b ents) = snd (snd b)"
  by (simp add: write_outputs_def Let_def split: option.splits)

lemma analyse_edges_not_aux:
  assumes "rd path = Some api" and "create_backbone_detector api detector"
    and "analyse rd hc path detector api True aux T = Inr (Inr (bb, rs, es, qs))"
    and "e \<in> set rs \<union> set es"
  shows "0 \<le> fst e \<and> \<not> is_aux aux (fst e) \<and> 0 \<le> snd e \<and> \<not> is_aux aux (snd e)"
proof -
  let ?V = "get_max_variable api"
  let ?vars = "build_vars_to_process True aux ?V"
  let ?pv = "process_variable api ?V bb aux"
  note s = analyse_success [OF assms(1,2,3)]
  from assms(4) s(4,5) obtain v where v: "v \<in> set ?vars"
    and e: "e \<in> set (requires_part ?pv v) \<or> e \<in> set (excludes_part ?pv v)"
    by auto
  from v have v_ok: "1 \<le> v" "\<not> is_aux aux v"
    by (simp_all add: set_build_vars)
  from v s(7) obtain p where p: "?pv v = Inr p" by blast
  from process_variable_Inr [OF p] obtain line
    where line: "to_indexed ?V (compute_backbone_with_assumptions api [v]) = Inr line"
    by blast
  obtain a w where aw: "e = (a, w)" by (cases e)
  from e show ?thesis
  proof
    assume "e \<in> set (requires_part ?pv v)"
    with requires_part_iff [OF p line, of a w] aw v_ok show ?thesis by simp
  next
    assume "e \<in> set (excludes_part ?pv v)"
    with excludes_part_iff [OF p line, of a w] aw v_ok show ?thesis by simp
  qed
qed

subsection \<open>The text of the output files\<close>

lemma digit_table:
  assumes "k < 10"
  shows "isdigit (''0123456789'' ! k) \<and> digit_value (''0123456789'' ! k) = int k"
proof -
  from assms have "k = 0 \<or> k = 1 \<or> k = 2 \<or> k = 3 \<or> k = 4 \<or> k = 5 \<or> k = 6 \<or> k = 7 \<or> k = 8
      \<or> k = 9"
    by arith
  then show ?thesis
    by (elim disjE) (simp_all add: isdigit_def digit_value_def)
qed

lemma isdigit_facts:
  "isdigit c \<Longrightarrow> \<not> isspace c \<and> c \<noteq> CHR ''-'' \<and> c \<noteq> CHR ''+'' \<and> c \<noteq> CHR 0x0A"
  by (auto simp: isdigit_def isspace_def)

lemma nat_to_string_digits: "c \<in> set (nat_to_string n) \<Longrightarrow> isdigit c"
proof (induction n arbitrary: c rule: nat_to_string.induct)
  case (1 n)
  show ?case
  proof (cases "n < 10")
    case True
    with "1.prems" digit_table [of n] show ?thesis
      by (simp add: nat_to_string.simps [of n])
  next
    case False
    with "1.prems" have "c \<in> set (nat_to_string (n div 10)) \<or> c = ''0123456789'' ! (n mod 10)"
      by (auto simp: nat_to_string.simps [of n])
    then show ?thesis
    proof
      assume "c \<in> set (nat_to_string (n div 10))"
      with "1.IH" [OF False] show ?thesis by simp
    next
      assume "c = ''0123456789'' ! (n mod 10)"
      with digit_table [of "n mod 10"] show ?thesis by simp
    qed
  qed
qed

lemma nat_to_string_nonempty: "nat_to_string n \<noteq> []"
  by (simp add: nat_to_string.simps [of n])

lemma nat_to_string_value:
  "foldl (\<lambda>a d. 10 * a + digit_value d) 0 (nat_to_string n) = int n"
proof (induction n rule: nat_to_string.induct)
  case (1 n)
  show ?case
  proof (cases "n < 10")
    case True
    with digit_table [of n] show ?thesis
      by (simp add: nat_to_string.simps [of n])
  next
    case False
    from "1.IH" [OF False] digit_table [of "n mod 10"] False show ?thesis
      by (simp add: nat_to_string.simps [of n] zdiv_int zmod_int)
  qed
qed

lemma scan_int_to_string:
  assumes "0 \<le> v" and "r = [] \<or> \<not> isdigit (hd r)"
  shows "scan_int (to_string v @ r) = Some (v, r)"
proof -
  let ?ds = "nat_to_string (nat v)"
  have ds: "to_string v = ?ds" using assms(1) by (simp add: to_string_def)
  have dig: "\<And>c. c \<in> set ?ds \<Longrightarrow> isdigit c" by (rule nat_to_string_digits)
  have ne: "?ds \<noteq> []" by (rule nat_to_string_nonempty)
  then have hd_in: "hd ?ds \<in> set ?ds" by simp
  from dig [OF hd_in] isdigit_facts [of "hd ?ds"]
  have hd: "\<not> isspace (hd ?ds)" "hd ?ds \<noteq> CHR ''-''" "hd ?ds \<noteq> CHR ''+''" by simp_all
  have drop: "dropWhile isspace (?ds @ r) = ?ds @ r"
    using ne hd(1) by (cases ?ds) simp_all
  have hd_app: "hd (?ds @ r) = hd ?ds" using ne by simp
  have r: "takeWhile isdigit r = []" using assms(2) by (cases r) auto
  have r': "dropWhile isdigit r = r" using assms(2) by (cases r) auto
  have tw: "takeWhile isdigit (?ds @ r) = ?ds"
    using dig r by (simp add: takeWhile_append2)
  have dw: "dropWhile isdigit (?ds @ r) = r"
    using dig r' by (simp add: dropWhile_append2)
  show ?thesis
    using ne hd assms(1)
    by (simp add: scan_int_def ds drop hd_app tw dw nat_to_string_value Let_def)
qed

lemma scan_int_skip_space: "scan_int (CHR '' '' # s) = scan_int s"
  by (simp add: scan_int_def isspace_def)

lemma scan_int_no_number:
  "scan_int [] = None" "scan_int (CHR ''*'' # s) = None" "scan_int (CHR 0x22 # s) = None"
  by (simp_all add: scan_int_def isspace_def isdigit_def)

lemma to_string_no_newline: "CHR 0x0A \<notin> set (to_string v)"
  using nat_to_string_digits isdigit_facts by (auto simp: to_string_def)

lemma split_lines_piece:
  "CHR 0x0A \<notin> set p \<Longrightarrow> split_lines cur (p @ CHR 0x0A # rest) = (cur @ p) # split_lines [] rest"
  by (induction p arbitrary: cur) auto

lemma lines_of_pieces:
  assumes "\<forall>p \<in> set ps. CHR 0x0A \<notin> set p"
  shows "lines_of (concat (map (\<lambda>p. p @ [CHR 0x0A]) ps)) = ps"
  using assms
proof (induction ps)
  case Nil
  then show ?case by (simp add: lines_of_def)
next
  case (Cons p ps)
  then have "lines_of (concat (map (\<lambda>p. p @ [CHR 0x0A]) ps)) = ps" by simp
  moreover from Cons.prems have "CHR 0x0A \<notin> set p" by simp
  ultimately show ?case
    using split_lines_piece [of p "[]" "concat (map (\<lambda>p. p @ [CHR 0x0A]) ps)"]
    by (simp add: lines_of_def)
qed


lemma emit_line_comment:
  assumes "emit_line bb aux l = Inr r"
  shows "case comment_of l of
           None \<Rightarrow> r = None
         | Some c \<Rightarrow> 0 \<le> fst c \<and> r = (if is_aux aux (fst c) then None else Some (entry_of bb c))"
  using assms
  by (auto simp: emit_line_def comment_of_def entry_of_def split: if_splits option.splits)

lemma emit_lines_comments:
  assumes "emit_lines bb aux ls = Inr ents"
  shows "ents = map (entry_of bb) (filter (\<lambda>c. \<not> is_aux aux (fst c)) (comments ls)) \<and>
         (\<forall>c \<in> set (comments ls). 0 \<le> fst c)"
  using assms
proof (induction ls arbitrary: ents)
  case Nil
  then show ?case by simp
next
  case (Cons l ls)
  from Cons.prems obtain entry rest where l: "emit_line bb aux l = Inr entry"
    and rest: "emit_lines bb aux ls = Inr rest"
    and ents: "ents = (case entry of None \<Rightarrow> [] | Some e \<Rightarrow> [e]) @ rest"
    by (auto split: sum.splits)
  from emit_line_comment [OF l] Cons.IH [OF rest] ents show ?case
    by (auto split: option.splits if_splits)
qed

lemma named_aux_comments:
  "named_aux ls v \<longleftrightarrow> (\<exists>c \<in> set (comments ls). fst c = v \<and> is_aux_name (snd c))"
proof (induction ls)
  case Nil
  then show ?case by (simp add: named_aux_def)
next
  case (Cons l ls)
  then show ?case
    by (cases "parse_comment l") (auto simp: named_aux_Cons comment_of_def)
qed

lemma is_aux_listed:
  assumes "load_aux_vars ifstream path flt n = Inr (Inr aux)" and "0 \<le> v"
  shows "is_aux aux v \<longleftrightarrow> flt \<and> named_aux (all_lines ifstream path) v"
proof (cases flt)
  case True
  with assms load_aux_vars_filtering [of ifstream path n aux v] show ?thesis by simp
next
  case False
  with assms(1) have "aux = replicate (n + 1) False" by (simp add: load_aux_vars_def)
  with False is_aux_replicate_False [OF assms(2), of "n + 1"] show ?thesis by (simp only: simp_thms)
qed

lemma entries_listed:
  assumes "load_aux_vars ifstream path flt n = Inr (Inr aux)"
    and "emit_lines bb aux (all_lines ifstream path) = Inr ents"
  shows "ents = map (entry_of bb) (listed_comments flt (all_lines ifstream path))"
proof -
  note e = emit_lines_comments [OF assms(2)]
  have "filter (\<lambda>c. \<not> is_aux aux (fst c)) (comments (all_lines ifstream path)) =
      listed_comments flt (all_lines ifstream path)"
    unfolding listed_comments_def
    using e is_aux_listed [OF assms(1)] by (intro filter_cong refl) auto
  with e show ?thesis by simp
qed


lemma comments_member:
  "c \<in> set (comments ls) \<Longrightarrow>
     \<exists>l \<in> set ls. l \<noteq> [] \<and> hd l = CHR ''c'' \<and> parse_comment l = Some c"
proof (induction ls)
  case Nil
  then show ?case by simp
next
  case (Cons l ls)
  then show ?case
    by (cases "comment_of l") (auto simp: comment_of_def split: if_splits)
qed

lemma comment_word_no_newline:
  assumes "c \<in> set (comments ls)" and "w \<in> set (snd c)"
  shows "CHR 0x0A \<notin> set w"
proof -
  from comments_member [OF assms(1)] obtain l where "parse_comment l = Some (fst c, snd c)"
    by auto
  from parse_comment_words [OF this assms(2)] show ?thesis
    by (auto simp: isspace_def)
qed

lemma vertex_line_no_newline:
  assumes "c \<in> set (comments ls)"
  shows "CHR 0x0A \<notin> set (vertex_line c)"
  using comment_word_no_newline [OF assms] to_string_no_newline [of "fst c"]
  by (auto simp: vertex_line_def quoted_def)

lemma list_line_no_newline:
  assumes "c \<in> set (comments ls)"
  shows "CHR 0x0A \<notin> set (list_line c)"
  using comment_word_no_newline [OF assms] to_string_no_newline [of "fst c"]
  by (auto simp: list_line_def quoted_def)

lemma edge_line_no_newline: "CHR 0x0A \<notin> set (edge_line e)"
  using to_string_no_newline by (simp add: edge_line_def)

lemma feat_stream_pieces:
  assumes "\<forall>c \<in> set cs. snd c \<noteq> []"
  shows "feat_stream (map (entry_of bb) cs) = concat (map (\<lambda>p. p @ [CHR 0x0A]) (map vertex_line cs))"
  using assms
  by (induction cs) (simp_all add: feat_stream_def entry_of_def feat_chunk_def vertex_line_def endl_def)

lemma core_stream_pieces:
  assumes "\<forall>c \<in> set cs. snd c \<noteq> []"
  shows "core_stream (map (entry_of bb) cs) =
    concat (map (\<lambda>p. p @ [CHR 0x0A]) (map list_line (filter (\<lambda>c. 0 < bb ! nat (fst c)) cs)))"
  using assms
  by (induction cs) (simp_all add: core_stream_def entry_of_def list_chunk_def list_line_def endl_def)

lemma dead_stream_pieces:
  assumes "\<forall>c \<in> set cs. snd c \<noteq> []"
  shows "dead_stream (map (entry_of bb) cs) =
    concat (map (\<lambda>p. p @ [CHR 0x0A]) (map list_line (filter (\<lambda>c. bb ! nat (fst c) < 0) cs)))"
  using assms
  by (induction cs) (simp_all add: dead_stream_def entry_of_def list_chunk_def list_line_def endl_def)

lemma edge_lines_pieces:
  "edge_lines es = concat (map (\<lambda>p. p @ [CHR 0x0A]) (map edge_line es))"
  by (induction es) (simp_all add: edge_lines_def edge_line_def endl_def)

lemma net_file_pieces:
  assumes "\<forall>c \<in> set cs. snd c \<noteq> []"
  shows "''*Vertices '' @ to_string n @ endl @ feat_stream (map (entry_of bb) cs) @ section @ endl
           @ edge_lines es @ endl =
         concat (map (\<lambda>p. p @ [CHR 0x0A])
           ((''*Vertices '' @ to_string n) # map vertex_line cs @ section # map edge_line es @ [[]]))"
  by (simp add: feat_stream_pieces [OF assms] edge_lines_pieces endl_def)

lemma lines_of_lists:
  assumes "set cs \<subseteq> set (comments ls)" and "\<forall>c \<in> set cs. snd c \<noteq> []"
  shows "lines_of (core_stream (map (entry_of bb) cs)) =
           map list_line (filter (\<lambda>c. 0 < bb ! nat (fst c)) cs)"
    and "lines_of (dead_stream (map (entry_of bb) cs)) =
           map list_line (filter (\<lambda>c. bb ! nat (fst c) < 0) cs)"
proof -
  have nl: "\<forall>p \<in> set (map list_line (filter P cs)). CHR 0x0A \<notin> set p" for P
    using assms(1) list_line_no_newline [of _ ls] by auto
  show "lines_of (core_stream (map (entry_of bb) cs)) =
           map list_line (filter (\<lambda>c. 0 < bb ! nat (fst c)) cs)"
    unfolding core_stream_pieces [OF assms(2)] by (rule lines_of_pieces [OF nl])
  show "lines_of (dead_stream (map (entry_of bb) cs)) =
           map list_line (filter (\<lambda>c. bb ! nat (fst c) < 0) cs)"
    unfolding dead_stream_pieces [OF assms(2)] by (rule lines_of_pieces [OF nl])
qed

lemma lines_of_net_file:
  assumes "set cs \<subseteq> set (comments ls)" and "\<forall>c \<in> set cs. snd c \<noteq> []"
    and "CHR 0x0A \<notin> set section"
  shows "lines_of (''*Vertices '' @ to_string n @ endl @ feat_stream (map (entry_of bb) cs)
           @ section @ endl @ edge_lines es @ endl) =
         (''*Vertices '' @ to_string n) # map vertex_line cs @ section # map edge_line es @ [[]]"
proof -
  have "\<forall>p \<in> set ((''*Vertices '' @ to_string n) # map vertex_line cs @ section
      # map edge_line es @ [[]]). CHR 0x0A \<notin> set p"
    using assms(1,3) vertex_line_no_newline [of _ ls] edge_line_no_newline
      to_string_no_newline [of n]
    by auto
  from lines_of_pieces [OF this] show ?thesis
    unfolding net_file_pieces [OF assms(2)] .
qed

lemma line_numbers_header [simp]:
  "line_numbers [] = []" "line_numbers (CHR ''*'' # s) = []"
  by (simp_all add: line_numbers_def scan_int_no_number)

lemma line_numbers_vertex_line:
  assumes "0 \<le> fst c" and "snd c \<noteq> []"
  shows "line_numbers (vertex_line c) = [fst c]"
proof -
  from assms(2) obtain w ws where ws: "snd c = w # ws" by (cases "snd c") auto
  let ?r = "CHR '' '' # CHR 0x22 # w @ [CHR 0x22] @ concat (map quoted ws)"
  have v: "vertex_line c = to_string (fst c) @ ?r"
    by (simp add: vertex_line_def ws quoted_def)
  have "scan_int (to_string (fst c) @ ?r) = Some (fst c, ?r)"
    by (rule scan_int_to_string [OF assms(1)]) (simp add: isdigit_def)
  then show ?thesis
    by (simp add: line_numbers_def v scan_int_skip_space scan_int_no_number)
qed

lemma line_numbers_list_line:
  assumes "0 \<le> fst c" and "snd c \<noteq> []"
  shows "line_numbers (list_line c) = [fst c]"
proof -
  from assms(2) obtain w ws where ws: "snd c = w # ws" by (cases "snd c") auto
  let ?r = "CHR '' '' # CHR 0x22 # w @ [CHR 0x22]
      @ concat (map (\<lambda>word. to_string (fst c) @ quoted word) ws)"
  have v: "list_line c = to_string (fst c) @ ?r"
    by (simp add: list_line_def ws quoted_def)
  have "scan_int (to_string (fst c) @ ?r) = Some (fst c, ?r)"
    by (rule scan_int_to_string [OF assms(1)]) (simp add: isdigit_def)
  then show ?thesis
    by (simp add: line_numbers_def v scan_int_skip_space scan_int_no_number)
qed

lemma line_numbers_edge_line:
  assumes "0 \<le> fst e" and "0 \<le> snd e"
  shows "line_numbers (edge_line e) = [fst e, snd e]"
proof -
  let ?r = "CHR '' '' # to_string (snd e)"
  have "scan_int (to_string (fst e) @ ?r) = Some (fst e, ?r)"
    by (rule scan_int_to_string [OF assms(1)]) (simp add: isdigit_def)
  moreover have "scan_int (to_string (snd e) @ []) = Some (snd e, [])"
    by (rule scan_int_to_string [OF assms(2)]) simp
  ultimately show ?thesis
    by (simp add: line_numbers_def edge_line_def scan_int_skip_space)
qed


lemma write_files_prefix: "set (fst (write_files opens fs)) \<subseteq> set fs"
  by (induction fs) auto

lemma write_files_all: "snd (write_files opens fs) = None \<Longrightarrow> fst (write_files opens fs) = fs"
  by (induction fs) (auto split: if_splits)

lemma write_outputs_written:
  "set (written (write_outputs env st dir base b ents))
     \<subseteq> set (output_files base (num_variables st) (fst b) (fst (snd b)) ents) \<and>
   (returned (write_outputs env st dir base b ents) \<longrightarrow>
      written (write_outputs env st dir base b ents) =
        output_files base (num_variables st) (fst b) (fst (snd b)) ents) \<and>
   num_variables (impl (write_outputs env st dir base b ents)) = num_variables st \<and>
   global_backbone (impl (write_outputs env st dir base b ents)) = global_backbone st"
  using write_files_prefix [of "env_ofstream env"
      "output_files base (num_variables st) (fst b) (fst (snd b)) ents"]
    write_files_all [of "env_ofstream env"
      "output_files base (num_variables st) (fst b) (fst (snd b)) ents"]
  by (simp add: write_outputs_def Let_def split: option.splits)

lemma generate_written:
  assumes "generate_graphs_impl env st dimacs_file output_folder detector T = Inr out"
  shows "(\<not> returned out \<and> written out = []) \<or>
         (\<exists>api aux bb b base.
            env_read_dimacs env (dimacs_path_of dimacs_file) = Some api \<and>
            create_backbone_detector api detector \<and>
            load_aux_vars (env_ifstream env) (dimacs_path_of dimacs_file) (filter_auxiliary st)
              (get_max_variable api) = Inr (Inr aux) \<and>
            analyse (env_read_dimacs env) (env_hardware_concurrency env)
              (dimacs_path_of dimacs_file) detector api (filter_auxiliary st) aux T
              = Inr (Inr (bb, b)) \<and>
            emit_lines bb aux (all_lines (env_ifstream env) (dimacs_path_of dimacs_file))
              = Inr (entries out) \<and>
            requires_edges out = fst b \<and> excludes_edges out = fst (snd b) \<and>
            num_variables (impl out) = int (get_max_variable api) \<and>
            global_backbone (impl out) = compute_backbone api \<and>
            set (written out) \<subseteq> set (output_files base (int (get_max_variable api)) (fst b)
                                        (fst (snd b)) (entries out)) \<and>
            (returned out \<longrightarrow>
               written out = output_files base (int (get_max_variable api)) (fst b)
                               (fst (snd b)) (entries out)))"
proof (cases "env_read_dimacs env (dimacs_path_of dimacs_file)")
  case None
  with assms show ?thesis
    by (auto simp: generate_graphs_impl_def failure_def)
next
  case (Some api)
  show ?thesis
  proof (cases "create_backbone_detector api detector")
    case False
    with Some assms show ?thesis
      by (auto simp: generate_graphs_impl_def failure_def)
  next
    case True
    let ?path = "dimacs_path_of dimacs_file"
    let ?V = "get_max_variable api"
    let ?dir = "if output_folder = [] then get_directory ?path else normalize_path output_folder"
    let ?base = "?dir @ ''/'' @ get_basename dimacs_file"
    let ?st2 = "st\<lparr>num_variables := 0, num_clauses := 0, global_backbone := [],
                   error_message := []\<rparr>\<lparr>num_variables := int ?V\<rparr>"
    show ?thesis
    proof (cases "read_clause_count (env_ifstream env) ?path (num_clauses ?st2)")
      case (Inl msg)
      with Some True assms show ?thesis
        by (auto simp: generate_graphs_impl_def Let_def failure_def)
    next
      case clauses: (Inr clauses)
      let ?st3 = "?st2\<lparr>num_clauses := clauses\<rparr>"
      let ?st4 = "?st3\<lparr>global_backbone := compute_backbone api\<rparr>"
      have flt: "filter_auxiliary ?st3 = filter_auxiliary st" "filter_auxiliary ?st4 = filter_auxiliary st"
        by simp_all
      show ?thesis
      proof (cases "load_aux_vars (env_ifstream env) ?path (filter_auxiliary st) ?V")
        case (Inl c)
        with Some True clauses assms show ?thesis
          by (simp add: generate_graphs_impl_def Let_def)
      next
        case loaded: (Inr r)
        show ?thesis
        proof (cases r)
          case (Inl msg)
          with loaded Some True clauses assms show ?thesis
            by (auto simp: generate_graphs_impl_def Let_def failure_def)
        next
          case aux: (Inr aux)
          show ?thesis
          proof (cases "analyse (env_read_dimacs env) (env_hardware_concurrency env) ?path
              detector api (filter_auxiliary st) aux T")
            case (Inl c)
            with aux loaded Some True clauses assms show ?thesis
              by (simp add: generate_graphs_impl_def Let_def)
          next
            case analysed: (Inr r')
            show ?thesis
            proof (cases r')
              case (Inl msg)
              with analysed aux loaded Some True clauses assms show ?thesis
                by (auto simp: generate_graphs_impl_def Let_def failure_def)
            next
              case res: (Inr p)
              obtain bb b where p: "p = (bb, b)" by (cases p)
              show ?thesis
              proof (cases "emit_lines bb aux (all_lines (env_ifstream env) ?path)")
                case (Inl c)
                with p res analysed aux loaded Some True clauses assms show ?thesis
                  by (simp add: generate_graphs_impl_def Let_def)
              next
                case em: (Inr ents)
                with p res analysed aux loaded Some True clauses assms
                have out: "out = write_outputs env ?st4 ?dir ?base b ents"
                  by (simp add: generate_graphs_impl_def Let_def)
                have nv: "num_variables ?st4 = int ?V"
                  and gb: "global_backbone ?st4 = compute_backbone api" by simp_all
                note w = write_outputs_written [of env ?st4 ?dir ?base b ents, folded out,
                    unfolded nv gb]
                note c = write_outputs_computed [of env ?st4 ?dir ?base b ents, folded out]
                from c have ents: "entries out = ents" and rs: "requires_edges out = fst b"
                  and es: "excludes_edges out = fst (snd b)" by simp_all
                have "env_read_dimacs env ?path = Some api \<and>
                  create_backbone_detector api detector \<and>
                  load_aux_vars (env_ifstream env) ?path (filter_auxiliary st) ?V
                    = Inr (Inr aux) \<and>
                  analyse (env_read_dimacs env) (env_hardware_concurrency env)
                    ?path detector api (filter_auxiliary st) aux T = Inr (Inr (bb, b)) \<and>
                  emit_lines bb aux (all_lines (env_ifstream env) ?path) = Inr (entries out) \<and>
                  requires_edges out = fst b \<and> excludes_edges out = fst (snd b) \<and>
                  num_variables (impl out) = int ?V \<and>
                  global_backbone (impl out) = compute_backbone api \<and>
                  set (written out) \<subseteq> set (output_files ?base (int ?V) (fst b)
                                              (fst (snd b)) (entries out)) \<and>
                  (returned out \<longrightarrow>
                     written out = output_files ?base (int ?V) (fst b)
                                     (fst (snd b)) (entries out))"
                  using Some True loaded aux analysed res p em w rs es unfolding ents
                  by (intro conjI) simp_all
                then show ?thesis by blast
              qed
            qed
          qed
        qed
      qed
    qed
  qed
qed



lemma output_files_lines:
  assumes "set cs \<subseteq> set (comments ls)" and "\<forall>c \<in> set cs. snd c \<noteq> []"
  shows "map (\<lambda>f. lines_of (snd f)) (output_files base n rs es (map (entry_of bb) cs)) =
     [map list_line (filter (\<lambda>c. 0 < bb ! nat (fst c)) cs),
      map list_line (filter (\<lambda>c. bb ! nat (fst c) < 0) cs),
      (''*Vertices '' @ to_string n) # map vertex_line cs @ ''*Arcs'' # map edge_line rs @ [[]],
      (''*Vertices '' @ to_string n) # map vertex_line cs @ ''*Edges'' # map edge_line es @ [[]]]"
proof -
  have a: "CHR 0x0A \<notin> set ''*Arcs''" and e: "CHR 0x0A \<notin> set ''*Edges''" by simp_all
  show ?thesis
    unfolding output_files_def
    by (simp only: list.map snd_conv lines_of_lists [OF assms]
        lines_of_net_file [OF assms a] lines_of_net_file [OF assms e])
qed

lemma listed_subset: "set (listed_comments flt ls) \<subseteq> set (comments ls)"
  by (auto simp: listed_comments_def)


lemma file_mentions_iff:
  "file_mentions text v \<longleftrightarrow> (\<exists>l \<in> set (lines_of text). v \<in> set (line_numbers l))"
  by (simp add: file_mentions_def list_ex_iff)

subsection \<open>Names in the output files\<close>


text \<open>
  A comment that gives an index and no name writes the index without ending the line
  (lines 720 and 740), so that the next vertex line starts with it: after \<^verbatim>\<open>c 3\<close> the name
  comment \<^verbatim>\<open>c 1 a\<close> appears as \<^verbatim>\<open>31 "a"\<close> in the requires and excludes files and as
  \<^verbatim>\<open>1 "a"\<close> in the core file, and these files then show index 31, here the index of a
  variable that is filtered out.
\<close>

lemma bare_index_runs_into_next_line:
  "case generate_graphs_impl (sample_env ''c.dimacs'' bare_index_lines core_api)
          (set_filter_auxiliary True new_Impl) ''c.dimacs'' [] ''one'' 1 of
     Inl c \<Rightarrow> False
   | Inr out \<Rightarrow>
       returned out \<and> named_aux bare_index_lines 31 \<and>
       listed_comments True bare_index_lines = [(3, []), (1, [''a''])] \<and>
       map (\<lambda>f. lines_of (snd f)) (written out) =
         [[''1 '' @ [CHR 0x22] @ ''a'' @ [CHR 0x22]], [],
          [''*Vertices 1'', ''31 '' @ [CHR 0x22] @ ''a'' @ [CHR 0x22], ''*Arcs'', []],
          [''*Vertices 1'', ''31 '' @ [CHR 0x22] @ ''a'' @ [CHR 0x22], ''*Edges'', []]] \<and>
       map (\<lambda>f. file_mentions (snd f) 31) (written out) = [False, False, True, True]"
  by code_simp



lemma one_word_names_sample:
  "case generate_graphs_impl (sample_env ''c.dimacs'' core_lines core_api) new_Impl ''c.dimacs'' []
          ''one'' 1 of
     Inl c \<Rightarrow> False
   | Inr out \<Rightarrow>
       map (\<lambda>f. lines_of (snd f)) (written out) =
         [[''1 '' @ [CHR 0x22] @ ''a'' @ [CHR 0x22]], [],
          [''*Vertices 1'', ''1 '' @ [CHR 0x22] @ ''a'' @ [CHR 0x22], ''*Arcs'', []],
          [''*Vertices 1'', ''1 '' @ [CHR 0x22] @ ''a'' @ [CHR 0x22], ''*Edges'', []]]"
  by code_simp

subsection \<open>Auxiliary variables in the output files\<close>

text \<open>
  C1, as stated, fails: a freshly constructed API object has filtering switched off, and then
  variable 3 of the mediator formula, named \<^verbatim>\<open>aux_1\<close>, has a vertex line in the requires
  and excludes files and is an endpoint of requires edges.
\<close>

theorem aux_in_output_counterexample:
  "case generate_graphs_impl (sample_env ''m.dimacs'' mediator_lines mediator_api) new_Impl
          ''m.dimacs'' [] ''one'' 1 of
     Inl c \<Rightarrow> False
   | Inr out \<Rightarrow>
       returned out \<and> named_aux mediator_lines 3 \<and>
       map_of (written out) ''./m__requires.net'' =
         Some (''*Vertices 3'' @ [CHR 0x0A] @
               ''1 '' @ [CHR 0x22] @ ''a'' @ [CHR 0x22, CHR 0x0A] @
               ''2 '' @ [CHR 0x22] @ ''b'' @ [CHR 0x22, CHR 0x0A] @
               ''3 '' @ [CHR 0x22] @ ''aux_1'' @ [CHR 0x22, CHR 0x0A] @
               ''*Arcs'' @ [CHR 0x0A] @
               ''2 1'' @ [CHR 0x0A] @ ''2 3'' @ [CHR 0x0A] @ ''3 1'' @ [CHR 0x0A, CHR 0x0A]) \<and>
       map (\<lambda>f. (fst f, file_mentions (snd f) 3)) (written out) =
         [(''./m__core.txt'', False), (''./m__dead.txt'', False),
          (''./m__requires.net'', True), (''./m__excludes.net'', True)]"
  by code_simp

text \<open>
  C1, amended. When \<^verbatim>\<open>filter_auxiliary\<close> is set (the front end sets it in Tseitin mode only)
  and every name comment of a variable that is not filtered out carries a name, no file that
  the call writes mentions a variable that some name comment of the input names
  \<^verbatim>\<open>aux_...\<close>, whatever the call returns.
\<close>

theorem auxiliary_excluded_when_filtering:
  assumes flt: "filter_auxiliary st"
    and run: "generate_graphs_impl env st dimacs_file output_folder detector T = Inr out"
    and named: "\<forall>c \<in> set (listed_comments True
                            (all_lines (env_ifstream env) (dimacs_path_of dimacs_file))).
                  snd c \<noteq> []"
    and written: "(file_name, text) \<in> set (written out)"
    and mentioned: "file_mentions text v"
  shows "\<not> named_aux (all_lines (env_ifstream env) (dimacs_path_of dimacs_file)) v"
proof -
  let ?path = "dimacs_path_of dimacs_file"
  let ?lines = "all_lines (env_ifstream env) ?path"
  let ?listed = "listed_comments True ?lines"
  from written have "written out \<noteq> []" by auto
  with generate_written [OF run, unfolded eqTrueI [OF flt]]
  have "\<exists>api aux bb b base.
      env_read_dimacs env ?path = Some api \<and>
      create_backbone_detector api detector \<and>
      load_aux_vars (env_ifstream env) ?path True (get_max_variable api) = Inr (Inr aux) \<and>
      analyse (env_read_dimacs env) (env_hardware_concurrency env) ?path detector api
        True aux T = Inr (Inr (bb, b)) \<and>
      emit_lines bb aux ?lines = Inr (entries out) \<and>
      requires_edges out = fst b \<and> excludes_edges out = fst (snd b) \<and>
      num_variables (impl out) = int (get_max_variable api) \<and>
      global_backbone (impl out) = compute_backbone api \<and>
      set (written out) \<subseteq> set (output_files base (int (get_max_variable api)) (fst b)
                                  (fst (snd b)) (entries out)) \<and>
      (returned out \<longrightarrow>
         written out = output_files base (int (get_max_variable api)) (fst b)
                         (fst (snd b)) (entries out))"
    by simp
  then obtain api aux bb b base where
    load: "env_read_dimacs env ?path = Some api"
    and det: "create_backbone_detector api detector"
    and aux: "load_aux_vars (env_ifstream env) ?path True (get_max_variable api) = Inr (Inr aux)"
    and an: "analyse (env_read_dimacs env) (env_hardware_concurrency env) ?path detector api
               True aux T = Inr (Inr (bb, b))"
    and em: "emit_lines bb aux ?lines = Inr (entries out)"
    and files: "set (written out) \<subseteq> set (output_files base (int (get_max_variable api)) (fst b)
                                        (fst (snd b)) (entries out))"
    by (elim exE conjE)
  obtain rs es qs where b: "b = (rs, es, qs)" by (cases b)
  have ents: "entries out = map (entry_of bb) ?listed"
    by (rule entries_listed [OF aux em])
  let ?fs = "output_files base (int (get_max_variable api)) rs es (map (entry_of bb) ?listed)"
  let ?header = "''*Vertices '' @ to_string (int (get_max_variable api))"
  from written files have "(file_name, text) \<in> set ?fs" by (auto simp: ents b)
  then have "lines_of text \<in> set (map (\<lambda>f. lines_of (snd f)) ?fs)" by force
  then have "lines_of text \<in> set
     [map list_line (filter (\<lambda>c. 0 < bb ! nat (fst c)) ?listed),
      map list_line (filter (\<lambda>c. bb ! nat (fst c) < 0) ?listed),
      ?header # map vertex_line ?listed @ ''*Arcs'' # map edge_line rs @ [[]],
      ?header # map vertex_line ?listed @ ''*Edges'' # map edge_line es @ [[]]]"
    unfolding output_files_lines [OF listed_subset named] .
  with mentioned obtain l where l: "v \<in> set (line_numbers l)"
    and l_cases: "l \<in> list_line ` set ?listed \<or> l \<in> vertex_line ` set ?listed \<or>
                  l \<in> edge_line ` (set rs \<union> set es) \<or> l = ?header \<or> l = ''*Arcs'' \<or>
                  l = ''*Edges'' \<or> l = []"
    unfolding file_mentions_iff by auto
  have listed: "0 \<le> fst c \<and> snd c \<noteq> [] \<and> \<not> named_aux ?lines (fst c)"
    if "c \<in> set ?listed" for c
  proof -
    from that named have "snd c \<noteq> []" by blast
    moreover from that have "c \<in> set (comments ?lines)" "\<not> named_aux ?lines (fst c)"
      by (simp_all add: listed_comments_def)
    moreover from emit_lines_comments [OF em] have "\<forall>c \<in> set (comments ?lines). 0 \<le> fst c" ..
    ultimately show ?thesis by blast
  qed
  have edges: "0 \<le> fst e \<and> 0 \<le> snd e \<and> \<not> named_aux ?lines (fst e) \<and> \<not> named_aux ?lines (snd e)"
    if "e \<in> set rs \<union> set es" for e
  proof -
    from analyse_edges_not_aux [where rd = "env_read_dimacs env" and path = ?path,
        OF load det an [unfolded b] that]
    have e: "0 \<le> fst e" "\<not> is_aux aux (fst e)" "0 \<le> snd e" "\<not> is_aux aux (snd e)"
      by simp_all
    from e load_aux_vars_filtering [OF aux e(1)] load_aux_vars_filtering [OF aux e(3)]
    show ?thesis by simp
  qed
  from l_cases show ?thesis
  proof (elim disjE)
    assume "l \<in> list_line ` set ?listed"
    then obtain c where c: "c \<in> set ?listed" "l = list_line c" by blast
    with l listed [OF c(1)] line_numbers_list_line [of c] show ?thesis by simp
  next
    assume "l \<in> vertex_line ` set ?listed"
    then obtain c where c: "c \<in> set ?listed" "l = vertex_line c" by blast
    with l listed [OF c(1)] line_numbers_vertex_line [of c] show ?thesis by simp
  next
    assume "l \<in> edge_line ` (set rs \<union> set es)"
    then obtain e where e: "e \<in> set rs \<union> set es" "l = edge_line e" by blast
    with l edges [OF e(1)] line_numbers_edge_line [of e] show ?thesis by auto
  next
    assume "l = ?header"
    with l show ?thesis by simp
  next
    assume "l = ''*Arcs''"
    with l show ?thesis by simp
  next
    assume "l = ''*Edges''"
    with l show ?thesis by simp
  next
    assume "l = []"
    with l show ?thesis by simp
  qed
qed

theorem auxiliary_excluded_when_filtering_witness:
  "filter_auxiliary (set_filter_auxiliary True new_Impl) \<and>
   generate_graphs_impl (sample_env ''m.dimacs'' mediator_lines mediator_api)
     (set_filter_auxiliary True new_Impl) ''m.dimacs'' [] ''one'' 2 =
     Inr (write_outputs (sample_env ''m.dimacs'' mediator_lines mediator_api)
            \<lparr>num_variables = 3, num_clauses = 2, global_backbone = [], error_message = [],
             filter_auxiliary = True\<rparr> ''.'' ''./m'' ([(2, 1)], [], [[1], [2]])
            [\<lparr>entry_var = 1, feat_text = ''1 '' @ [CHR 0x22] @ ''a'' @ [CHR 0x22, CHR 0x0A],
              core_text = [], dead_text = []\<rparr>,
             \<lparr>entry_var = 2, feat_text = ''2 '' @ [CHR 0x22] @ ''b'' @ [CHR 0x22, CHR 0x0A],
              core_text = [], dead_text = []\<rparr>]) \<and>
   listed_comments True mediator_lines = [(1, [''a'']), (2, [''b''])] \<and>
   map_of (written (write_outputs (sample_env ''m.dimacs'' mediator_lines mediator_api)
            \<lparr>num_variables = 3, num_clauses = 2, global_backbone = [], error_message = [],
             filter_auxiliary = True\<rparr> ''.'' ''./m'' ([(2, 1)], [], [[1], [2]])
            [\<lparr>entry_var = 1, feat_text = ''1 '' @ [CHR 0x22] @ ''a'' @ [CHR 0x22, CHR 0x0A],
              core_text = [], dead_text = []\<rparr>,
             \<lparr>entry_var = 2, feat_text = ''2 '' @ [CHR 0x22] @ ''b'' @ [CHR 0x22, CHR 0x0A],
              core_text = [], dead_text = []\<rparr>])) ''./m__requires.net'' =
     Some (''*Vertices 3'' @ [CHR 0x0A] @
           ''1 '' @ [CHR 0x22] @ ''a'' @ [CHR 0x22, CHR 0x0A] @
           ''2 '' @ [CHR 0x22] @ ''b'' @ [CHR 0x22, CHR 0x0A] @
           ''*Arcs'' @ [CHR 0x0A] @ ''2 1'' @ [CHR 0x0A, CHR 0x0A]) \<and>
   file_mentions (''*Vertices 3'' @ [CHR 0x0A] @
           ''1 '' @ [CHR 0x22] @ ''a'' @ [CHR 0x22, CHR 0x0A] @
           ''2 '' @ [CHR 0x22] @ ''b'' @ [CHR 0x22, CHR 0x0A] @
           ''*Arcs'' @ [CHR 0x0A] @ ''2 1'' @ [CHR 0x0A, CHR 0x0A]) 2 \<and>
   named_aux mediator_lines 3 \<and>
   \<not> named_aux (all_lines (env_ifstream (sample_env ''m.dimacs'' mediator_lines mediator_api))
                  (dimacs_path_of ''m.dimacs'')) 2"
proof -
  let ?env = "sample_env ''m.dimacs'' mediator_lines mediator_api"
  let ?st = "set_filter_auxiliary True new_Impl"
  let ?out = "write_outputs ?env
            \<lparr>num_variables = 3, num_clauses = 2, global_backbone = [], error_message = [],
             filter_auxiliary = True\<rparr> ''.'' ''./m'' ([(2, 1)], [], [[1], [2]])
            [\<lparr>entry_var = 1, feat_text = ''1 '' @ [CHR 0x22] @ ''a'' @ [CHR 0x22, CHR 0x0A],
              core_text = [], dead_text = []\<rparr>,
             \<lparr>entry_var = 2, feat_text = ''2 '' @ [CHR 0x22] @ ''b'' @ [CHR 0x22, CHR 0x0A],
              core_text = [], dead_text = []\<rparr>]"
  let ?text = "''*Vertices 3'' @ [CHR 0x0A] @
           ''1 '' @ [CHR 0x22] @ ''a'' @ [CHR 0x22, CHR 0x0A] @
           ''2 '' @ [CHR 0x22] @ ''b'' @ [CHR 0x22, CHR 0x0A] @
           ''*Arcs'' @ [CHR 0x0A] @ ''2 1'' @ [CHR 0x0A, CHR 0x0A]"
  have h1: "filter_auxiliary ?st"
    by (simp add: set_filter_auxiliary_def)
  have h2: "generate_graphs_impl ?env ?st ''m.dimacs'' [] ''one'' 2 = Inr ?out"
    by code_simp
  have lines: "all_lines (env_ifstream ?env) (dimacs_path_of ''m.dimacs'') = mediator_lines"
    by code_simp
  have listed: "listed_comments True mediator_lines = [(1, [''a'']), (2, [''b''])]"
    by code_simp
  have h3: "\<forall>c \<in> set (listed_comments True
      (all_lines (env_ifstream ?env) (dimacs_path_of ''m.dimacs''))). snd c \<noteq> []"
    unfolding lines listed by simp
  have h4: "map_of (written ?out) ''./m__requires.net'' = Some ?text"
    by code_simp
  then have h4': "(''./m__requires.net'', ?text) \<in> set (written ?out)"
    by (rule map_of_SomeD)
  have h5: "file_mentions ?text 2"
    by code_simp
  have h6: "named_aux mediator_lines 3"
    by code_simp
  show ?thesis
    by (intro conjI h1 h2 listed h4 h5 h6
        auxiliary_excluded_when_filtering [OF h1 h2 h3 h4' h5])
qed

end
